theory Spec2Isabelle
  imports Main "HOL-Library.Sublist"
begin

section \<open>The request pipeline of server.js\<close>

text \<open>
  server.js builds one Express application: an ordered list of middleware, each mounted on
  a path, closed by an error-handling middleware and a catch-all 404 responder. The model
  below keeps that shape. A request is carried through the list of layers in source order;
  each layer that matches either passes on (\<open>next()\<close>), fails (\<open>next(err)\<close>) or ends
  the request with a response. Collaborator modules that server.js only requires (route
  groups, the security middleware) appear as parameters or are modelled from the
  specification, and are marked so.
\<close>

subsection \<open>Strings\<close>

text \<open>\<open>String.prototype.includes\<close>: the pattern occurs as a contiguous substring.\<close>

fun str_includes :: "string \<Rightarrow> string \<Rightarrow> bool" where
  "str_includes [] pat = (pat = [])"
| "str_includes (c # cs) pat = (prefix pat (c # cs) \<or> str_includes cs pat)"

text \<open>ASCII lower-casing: Express matches mount paths case-insensitively.\<close>

definition lower_char :: "char \<Rightarrow> char" where
  "lower_char c =
     (let n = (of_char c :: nat) in
      if 65 \<le> n \<and> n \<le> 90
      then (case c of Char b0 b1 b2 b3 b4 b5 b6 b7 \<Rightarrow> Char b0 b1 b2 b3 b4 True b6 b7)
      else c)"

definition lower :: "string \<Rightarrow> string" where
  "lower s = map lower_char s"

subsection \<open>Responses and failures\<close>

type_synonym header = "string \<times> string"

text \<open>
  The body is what the handler hands to \<open>res.json\<close> (an object of string fields) or to
  \<open>res.send\<close> (a text); \<open>Empty\<close> is a response ended without a body.
\<close>

datatype body = Json "(string \<times> string) list" | Text string | Empty

record response =
  status :: nat
  headers :: "header list"
  body :: body

text \<open>
  A failure is a JavaScript \<open>Error\<close>: it has a string message, and when it is an
  instance of \<open>multer.MulterError\<close> it also has a code.
\<close>

record failure =
  multer_code :: "string option"
  message :: string

text \<open>What a middleware does with a request: \<open>next()\<close>, \<open>next(err)\<close>, or a response.\<close>

datatype outcome =
    Next "header list"
  | Throw failure
  | Respond nat "header list" body

text \<open>
  \<open>res.json\<close> serialises an object with \<open>JSON.stringify\<close>, which leaves out every
  property whose value is \<open>undefined\<close> (here \<open>None\<close>).
\<close>

fun json_object :: "(string \<times> string option) list \<Rightarrow> (string \<times> string) list" where
  "json_object [] = []"
| "json_object ((k, None) # fs) = json_object fs"
| "json_object ((k, Some v) # fs) = (k, v) # json_object fs"

definition res_json :: "nat \<Rightarrow> (string \<times> string option) list \<Rightarrow> outcome" where
  "res_json st obj =
     Respond st [(''Content-Type'', ''application/json; charset=utf-8'')] (Json (json_object obj))"

text \<open>Reading a field of a JSON body; \<open>None\<close> when the field is absent.\<close>

definition json_field :: "body \<Rightarrow> string \<Rightarrow> string option" where
  "json_field b k = (case b of Json fs \<Rightarrow> map_of fs k | Text t \<Rightarrow> None | Empty \<Rightarrow> None)"

subsection \<open>Error handling middleware (server.js, lines 96 to 113)\<close>

definition is_development :: "string option \<Rightarrow> bool" where
  "is_development node_env = (node_env = Some ''development'')"

definition limit_file_size :: "failure \<Rightarrow> bool" where
  "limit_file_size error =
     (case multer_code error of None \<Rightarrow> False | Some c \<Rightarrow> c = ''LIMIT_FILE_SIZE'')"

definition invalid_file_type :: "failure \<Rightarrow> bool" where
  "invalid_file_type error =
     (message error \<noteq> [] \<and> str_includes (message error) ''Invalid file type'')"

definition error_handler :: "string option \<Rightarrow> failure \<Rightarrow> outcome" where
  "error_handler node_env error =
     (if limit_file_size error
      then res_json 400 [(''error'', Some ''File too large. Maximum size is 10MB.'')]
      else if invalid_file_type error
      then res_json 400 [(''error'', Some (message error))]
      else res_json 500
             [(''error'', Some ''An unexpected error occurred. Please try again.''),
              (''details'', if is_development node_env then Some (message error) else None)])"

text \<open>The status and the body of a terminal outcome.\<close>

definition outcome_status :: "outcome \<Rightarrow> nat option" where
  "outcome_status out =
     (case out of Next hs \<Rightarrow> None | Throw f \<Rightarrow> None | Respond st hs b \<Rightarrow> Some st)"

definition outcome_body :: "outcome \<Rightarrow> body" where
  "outcome_body out =
     (case out of Next hs \<Rightarrow> Empty | Throw f \<Rightarrow> Empty | Respond st hs b \<Rightarrow> b)"

subsection \<open>File upload configuration (server.js, lines 55 to 74)\<close>



definition invalid_type_error :: failure where
  "invalid_type_error =
     \<lparr>multer_code = None,
      message = ''Invalid file type. Only .txt, .md, .json, and .csv files are allowed.''\<rparr>"



definition file_too_large_error :: failure where
  "file_too_large_error = \<lparr>multer_code = Some ''LIMIT_FILE_SIZE'', message = ''File too large''\<rparr>"



subsection \<open>Requests and configuration\<close>

datatype http_method = GET | HEAD | POST | PUT | PATCH | DELETE | OPTIONS

datatype body_kind = JsonBody | FormBody | OtherBody

text \<open>A request body as the body parsers see it: its content type and its length.\<close>

record payload =
  kind :: body_kind
  body_length :: nat

text \<open>
  \<open>origin\<close> is \<open>req.headers.origin\<close>: \<open>None\<close> when the header is absent, otherwise
  its value, which may be the empty string. \<open>client\<close> is the identity the rate limiters
  count by, \<open>arrival\<close> the time of the request in milliseconds and \<open>iso_time\<close> the
  clock's \<open>toISOString()\<close> at that time.
\<close>

record request =
  meth :: http_method
  path :: string
  origin :: "string option"
  client :: string
  content :: "payload option"
  arrival :: nat
  iso_time :: string

record limiter_config =
  windowMs :: nat
  maxCount :: nat
  statusCode :: nat
  limit_message :: string

text \<open>The three limiters that \<open>createRateLimiters()\<close> returns, by their names.\<close>

datatype limiter_name = generalLimiter | uploadLimiter | apiLimiter

text \<open>
  \<open>NODE_ENV\<close> is \<open>process.env.NODE_ENV\<close>; \<open>allowedOrigins\<close> is the list computed once
  at startup from \<open>CORS_ORIGIN\<close>. The headers that the two security middleware set and
  the configuration of each limiter are defined in middleware/security, which server.js
  only requires: they are parameters here.
\<close>

record config =
  NODE_ENV :: "string option"
  allowedOrigins :: "string list"
  helmet_headers :: "header list"
  custom_headers :: "header list"
  rate_limits :: "limiter_name \<Rightarrow> limiter_config"

subsection \<open>CORS configuration (server.js, lines 29 to 41)\<close>

text \<open>JavaScript's \<open>!origin\<close>: true of \<open>undefined\<close> and of the empty string.\<close>

definition no_origin :: "string option \<Rightarrow> bool" where
  "no_origin org = (case org of None \<Rightarrow> True | Some s \<Rightarrow> s = [])"

definition cors_error :: failure where
  "cors_error = \<lparr>multer_code = None, message = ''Not allowed by CORS''\<rparr>"

text \<open>
  The \<open>origin\<close> callback: \<open>callback(null, true)\<close> is \<open>Inr True\<close> and
  \<open>callback(new Error(...))\<close> is \<open>Inl\<close>. \<open>indexOf(origin) !== -1\<close> holds when
  the origin is strictly equal to an entry of the list.
\<close>

definition origin_callback :: "string list \<Rightarrow> string option \<Rightarrow> failure + bool" where
  "origin_callback allowed org =
     (if no_origin org then Inr True
      else if org \<in> set (map Some allowed) then Inr True
      else Inl cors_error)"

text \<open>
  The headers the cors package sets for an admitted request under \<open>credentials: true\<close>:
  the request's origin reflected when there is one, \<open>Vary: Origin\<close>, and the
  credentials header.
\<close>

definition cors_headers :: "string option \<Rightarrow> header list" where
  "cors_headers org =
     (case org of
        None \<Rightarrow> []
      | Some s \<Rightarrow> if s = [] then [] else [(''Access-Control-Allow-Origin'', s)])
     @ [(''Vary'', ''Origin''), (''Access-Control-Allow-Credentials'', ''true'')]"

text \<open>
  The cors middleware around the callback: an error goes to \<open>next(err)\<close>; an admitted
  preflight (\<open>OPTIONS\<close>) request is answered at once with status 204; any other admitted
  request continues. The preflight headers that reflect the request's
  \<open>Access-Control-Request-Headers\<close> are left out.
\<close>

definition cors :: "string list \<Rightarrow> request \<Rightarrow> outcome" where
  "cors allowed r =
     (case origin_callback allowed (origin r) of
        Inl err \<Rightarrow> Throw err
      | Inr allow \<Rightarrow>
          if \<not> allow then Next []
          else if meth r = OPTIONS
          then Respond 204
                 (cors_headers (origin r)
                  @ [(''Access-Control-Allow-Methods'', ''GET,HEAD,PUT,PATCH,POST,DELETE''),
                     (''Content-Length'', ''0'')])
                 Empty
          else Next (cors_headers (origin r)))"

subsection \<open>Rate limiting (server.js, lines 44 to 48)\<close>

text \<open>
  Modelled from the spec: \<open>SecurityMiddleware.createRateLimiters\<close> is defined in
  middleware/security, which is not among the sources. The specification describes one
  fixed counting window per limiter and client: a bucket holds a counter and the time at
  which its window ends; every matching request changes it; a request is admitted while
  the counter of the current window is below the configured maximum, and a request that
  arrives when the window has elapsed opens a new one.
\<close>

record bucket =
  hits :: nat
  resetTime :: nat

type_synonym store = "string \<Rightarrow> bucket option"

definition current_bucket :: "limiter_config \<Rightarrow> nat \<Rightarrow> bucket option \<Rightarrow> bucket" where
  "current_bucket lc now bo =
     (case bo of
        None \<Rightarrow> \<lparr>hits = 0, resetTime = now + windowMs lc\<rparr>
      | Some b \<Rightarrow> if resetTime b \<le> now then \<lparr>hits = 0, resetTime = now + windowMs lc\<rparr> else b)"

definition admit :: "limiter_config \<Rightarrow> nat \<Rightarrow> bucket option \<Rightarrow> bool \<times> bucket" where
  "admit lc now bo =
     (let b = current_bucket lc now bo
      in (hits b < maxCount lc, b\<lparr>hits := hits b + 1\<rparr>))"

text \<open>
  The limiter as a middleware: a rejected request is answered with the rate-limit error
  and \<open>next()\<close> is not called.
\<close>

definition rate_limit_error :: "limiter_config \<Rightarrow> outcome" where
  "rate_limit_error lc = res_json (statusCode lc) [(''error'', Some (limit_message lc))]"

definition limiter :: "limiter_config \<Rightarrow> store \<Rightarrow> request \<Rightarrow> outcome \<times> store" where
  "limiter lc st r =
     (case admit lc (arrival r) (st (client r)) of
        (ok, b) \<Rightarrow> (if ok then Next [] else rate_limit_error lc, st(client r := Some b)))"


text \<open>
  Each limiter instance has a store of its own; \<open>apiLimiter\<close> is one instance mounted
  on two paths, so both paths count into the same store.
\<close>

type_synonym limiters = "limiter_name \<Rightarrow> store"

subsection \<open>Body parsing middleware (server.js, lines 51 and 52)\<close>

text \<open>The bytes package reads \<open>'10mb'\<close> as 10 * 1024 * 1024 bytes.\<close>

definition body_limit :: nat where
  "body_limit = 10 * 1024 * 1024"

definition entity_too_large :: failure where
  "entity_too_large = \<lparr>multer_code = None, message = ''request entity too large''\<rparr>"

text \<open>
  \<open>express.json\<close> and \<open>express.urlencoded\<close> each read the body of a request of their
  own content type and fail when it is longer than the limit; a request without a body
  or with another content type passes untouched.
\<close>

definition body_parser :: "body_kind \<Rightarrow> request \<Rightarrow> outcome" where
  "body_parser k r =
     (case content r of
        None \<Rightarrow> Next []
      | Some p \<Rightarrow>
          if kind p = k \<and> body_length p > body_limit then Throw entity_too_large else Next [])"

subsection \<open>Routes (server.js, lines 77 to 93) and the 404 handler (lines 116 to 118)\<close>

datatype route_group = Upload | Summarize | Share | Pdf | Templates | VersionHistory | Export

text \<open>
  The route groups are routers of other modules. For a request, a group answers, passes
  on (no route of the group matched), or fails.
\<close>

datatype handler_result = Responds nat "header list" body | PassesOn | Fails failure

type_synonym collaborators = "route_group \<Rightarrow> request \<Rightarrow> handler_result"

definition route_group_handler :: "collaborators \<Rightarrow> route_group \<Rightarrow> request \<Rightarrow> outcome" where
  "route_group_handler col g r =
     (case col g r of
        Responds st hs b \<Rightarrow> Respond st hs b
      | PassesOn \<Rightarrow> Next []
      | Fails err \<Rightarrow> Throw err)"

definition health :: "request \<Rightarrow> outcome" where
  "health r = res_json 200 [(''status'', Some ''OK''), (''timestamp'', Some (iso_time r))]"

definition root :: outcome where
  "root = Respond 200 [(''Content-Type'', ''text/html; charset=utf-8'')] (Text ''API is running'')"

definition not_found :: outcome where
  "not_found = res_json 404 [(''error'', Some ''Endpoint not found'')]"

subsection \<open>The application: layers in source order\<close>

datatype stage =
    Helmet | SecurityHeaders | Cors
  | Limiter limiter_name
  | JsonParser | UrlencodedParser
  | Group route_group | Health | Root
  | ErrorHandler | NotFound

text \<open>
  How a layer is mounted: \<open>app.use(fn)\<close>, \<open>app.use(path, fn)\<close>, \<open>app.get(path, fn)\<close>,
  and \<open>app.use\<close> of a function of four arguments, which Express treats as an error
  handler.
\<close>

datatype mount = UseAll | Use string | Get string | UseError

definition app :: "(mount \<times> stage) list" where
  "app =
     [(UseAll, Helmet),
      (UseAll, SecurityHeaders),
      (UseAll, Cors),
      (Use ''/api/'', Limiter generalLimiter),
      (Use ''/api/upload'', Limiter uploadLimiter),
      (Use ''/api/summarize'', Limiter apiLimiter),
      (Use ''/api/pdf'', Limiter apiLimiter),
      (UseAll, JsonParser),
      (UseAll, UrlencodedParser),
      (Use ''/api/upload'', Group Upload),
      (Use ''/api/summarize'', Group Summarize),
      (Use ''/api/share'', Group Share),
      (Use ''/api/pdf'', Group Pdf),
      (Use ''/api/templates'', Group Templates),
      (Use ''/api/version-history'', Group VersionHistory),
      (Use ''/api/export'', Group Export),
      (Get ''/api/health'', Health),
      (Get ''/'', Root),
      (UseError, ErrorHandler),
      (UseAll, NotFound)]"

text \<open>
  Express path matching. A mount path of \<open>app.use\<close> matches a request path that starts
  with it and continues with a \<open>/\<close> or ends there; a trailing \<open>/\<close> of the mount path is
  optional. A path of \<open>app.get\<close> matches the whole request path, with an optional
  trailing \<open>/\<close>, for the methods GET and HEAD. Both ignore case.
\<close>

definition strip_slash :: "string \<Rightarrow> string" where
  "strip_slash s = (if s \<noteq> [] \<and> last s = CHR ''/'' then butlast s else s)"

definition match_use :: "string \<Rightarrow> string \<Rightarrow> bool" where
  "match_use m p =
     (let m' = lower (strip_slash m); p' = lower p
      in prefix m' p' \<and> (case drop (length m') p' of [] \<Rightarrow> True | c # cs \<Rightarrow> c = CHR ''/''))"

definition match_exact :: "string \<Rightarrow> string \<Rightarrow> bool" where
  "match_exact m p = (lower (strip_slash p) = lower (strip_slash m))"

fun matches :: "mount \<Rightarrow> request \<Rightarrow> bool" where
  "matches UseAll r = True"
| "matches (Use m) r = match_use m (path r)"
| "matches (Get m) r = ((meth r = GET \<or> meth r = HEAD) \<and> match_exact m (path r))"
| "matches UseError r = True"

fun error_layer :: "mount \<Rightarrow> bool" where
  "error_layer UseError = True"
| "error_layer m = False"

text \<open>
  Modelled from the spec: \<open>SecurityMiddleware.configureHelmet\<close> and
  \<open>createSecurityHeaders\<close> are defined in middleware/security, which is not among the
  sources. The specification describes each as an unconditional stage that attaches a
  fixed set of protective headers to the response and passes on.
\<close>

definition security_middleware :: "header list \<Rightarrow> outcome" where
  "security_middleware hs = Next hs"

text \<open>
  What each stage does. The pending failure is given to the error handler only; Express
  never calls an error handler without one.
\<close>

fun run_stage ::
  "config \<Rightarrow> collaborators \<Rightarrow> request \<Rightarrow> limiters \<Rightarrow> failure option \<Rightarrow> stage \<Rightarrow> outcome \<times> limiters"
where
  "run_stage cfg col r lim pending Helmet = (security_middleware (helmet_headers cfg), lim)"
| "run_stage cfg col r lim pending SecurityHeaders =
     (security_middleware (custom_headers cfg), lim)"
| "run_stage cfg col r lim pending Cors = (cors (allowedOrigins cfg) r, lim)"
| "run_stage cfg col r lim pending (Limiter n) =
     (case limiter (rate_limits cfg n) (lim n) r of (out, st) \<Rightarrow> (out, lim(n := st)))"
| "run_stage cfg col r lim pending JsonParser = (body_parser JsonBody r, lim)"
| "run_stage cfg col r lim pending UrlencodedParser = (body_parser FormBody r, lim)"
| "run_stage cfg col r lim pending (Group g) = (route_group_handler col g r, lim)"
| "run_stage cfg col r lim pending Health = (health r, lim)"
| "run_stage cfg col r lim pending Root = (root, lim)"
| "run_stage cfg col r lim (Some err) ErrorHandler = (error_handler (NODE_ENV cfg) err, lim)"
| "run_stage cfg col r lim None ErrorHandler = (Next [], lim)"
| "run_stage cfg col r lim pending NotFound = (not_found, lim)"

subsection \<open>Dispatch\<close>

datatype flow = Running | Failing failure | Done response

datatype verdict = Passed | Failed | Ended

text \<open>
  The state of one request on its way through the layers: where it stands, the headers
  set on the response so far, the limiters' stores, and the stages that ran, each with
  what it did.
\<close>

record ctx =
  flow :: flow
  res_headers :: "header list"
  limits :: limiters
  trace :: "(stage \<times> verdict) list"

definition advance :: "ctx \<Rightarrow> stage \<Rightarrow> outcome \<times> limiters \<Rightarrow> ctx" where
  "advance c s ol =
     (case ol of
        (Next hs, lim) \<Rightarrow>
          c\<lparr>flow := Running, res_headers := res_headers c @ hs, limits := lim,
            trace := trace c @ [(s, Passed)]\<rparr>
      | (Throw err, lim) \<Rightarrow>
          c\<lparr>flow := Failing err, limits := lim, trace := trace c @ [(s, Failed)]\<rparr>
      | (Respond st hs b, lim) \<Rightarrow>
          c\<lparr>flow := Done \<lparr>status = st, headers = res_headers c @ hs, body = b\<rparr>,
            limits := lim, trace := trace c @ [(s, Ended)]\<rparr>)"

text \<open>
  One layer. A request that has been answered is not touched again. While no failure is
  pending, Express skips error handlers and runs the layers that match; once a failure is
  pending, it skips every layer but the error handlers.
\<close>

definition step :: "config \<Rightarrow> collaborators \<Rightarrow> request \<Rightarrow> mount \<times> stage \<Rightarrow> ctx \<Rightarrow> ctx" where
  "step cfg col r l c =
     (case flow c of
        Done resp \<Rightarrow> c
      | Running \<Rightarrow>
          if error_layer (fst l) \<or> \<not> matches (fst l) r then c
          else advance c (snd l) (run_stage cfg col r (limits c) None (snd l))
      | Failing err \<Rightarrow>
          if error_layer (fst l) \<and> matches (fst l) r
          then advance c (snd l) (run_stage cfg col r (limits c) (Some err) (snd l))
          else c)"

definition run :: "config \<Rightarrow> collaborators \<Rightarrow> request \<Rightarrow> (mount \<times> stage) list \<Rightarrow> ctx \<Rightarrow> ctx" where
  "run cfg col r ls c = fold (step cfg col r) ls c"

definition start :: "limiters \<Rightarrow> ctx" where
  "start lim = \<lparr>flow = Running, res_headers = [], limits = lim, trace = []\<rparr>"

definition handle :: "config \<Rightarrow> collaborators \<Rightarrow> limiters \<Rightarrow> request \<Rightarrow> ctx" where
  "handle cfg col lim r = run cfg col r app (start lim)"

definition response_of :: "ctx \<Rightarrow> response option" where
  "response_of c = (case flow c of Running \<Rightarrow> None | Failing err \<Rightarrow> None | Done resp \<Rightarrow> Some resp)"

definition ran :: "stage \<Rightarrow> ctx \<Rightarrow> bool" where
  "ran s c = (s \<in> fst ` set (trace c))"

text \<open>The headers carried by the response, sent or still being assembled.\<close>

definition sent_headers :: "ctx \<Rightarrow> header list" where
  "sent_headers c =
     (case flow c of
        Running \<Rightarrow> res_headers c
      | Failing err \<Rightarrow> res_headers c
      | Done resp \<Rightarrow> headers resp)"

text \<open>The route groups and the two liveness endpoints, as registered.\<close>

fun is_route :: "stage \<Rightarrow> bool" where
  "is_route (Group g) = True"
| "is_route Health = True"
| "is_route Root = True"
| "is_route s = False"

definition routes :: "(mount \<times> stage) list" where
  "routes = filter (\<lambda>l. is_route (snd l)) app"

definition route_matches :: "request \<Rightarrow> bool" where
  "route_matches r = list_ex (\<lambda>l. matches (fst l) r) routes"

subsection \<open>Sample inputs\<close>

text \<open>A configuration, collaborators, empty limiter stores and requests to evaluate on.\<close>

definition sample_config :: config where
  "sample_config =
     \<lparr>NODE_ENV = Some ''production'',
      allowedOrigins = [''http://localhost:3000''],
      helmet_headers = [(''X-Content-Type-Options'', ''nosniff'')],
      custom_headers = [(''X-Frame-Options'', ''DENY'')],
      rate_limits = (\<lambda>n. \<lparr>windowMs = 900000, maxCount = 2, statusCode = 429,
                            limit_message = ''Too many requests''\<rparr>)\<rparr>"

definition sample_routes :: collaborators where
  "sample_routes g r = Responds 200 [] (Json [(''ok'', ''true'')])"

definition no_hits :: limiters where
  "no_hits n cl = None"

definition request_to :: "http_method \<Rightarrow> string \<Rightarrow> request" where
  "request_to m p =
     \<lparr>meth = m, path = p, origin = Some ''http://localhost:3000'', client = ''203.0.113.7'',
      content = None, arrival = 0, iso_time = ''2024-01-01T00:00:00.000Z''\<rparr>"



section \<open>Properties\<close>

subsection \<open>Substring test\<close>

lemma str_includes_sublist: "str_includes s pat = sublist pat s"
  by (induction s) (auto simp: sublist_Cons_right)

lemma str_includes_iff: "str_includes s pat = (\<exists>a b. s = a @ pat @ b)"
  by (simp add: str_includes_sublist sublist_def)

lemma invalid_file_type_iff:
  "invalid_file_type e = str_includes (message e) ''Invalid file type''"
  by (cases "message e") (auto simp: invalid_file_type_def)

subsection \<open>Error translation\<close>

lemma limit_file_size_too_large: "limit_file_size file_too_large_error"
  by (simp add: limit_file_size_def file_too_large_error_def)

lemma not_limit_file_size_plain: "multer_code e = None \<Longrightarrow> \<not> limit_file_size e"
  by (simp add: limit_file_size_def)

lemma invalid_type_error_includes:
  "str_includes (message invalid_type_error) ''Invalid file type''"
  by (simp add: invalid_type_error_def)

lemma cors_error_generic:
  "\<not> limit_file_size cors_error \<and> \<not> str_includes (message cors_error) ''Invalid file type''"
  by (simp add: cors_error_def limit_file_size_def)

lemma error_handler_responds: "\<exists>st hs b. error_handler env e = Respond st hs b"
  by (simp add: error_handler_def res_json_def)

text \<open>
  Claim C1. The error handler classifies a failure by the first rule that matches:
  a \<open>MulterError\<close> of code \<open>LIMIT_FILE_SIZE\<close> is answered with status 400 and the
  fixed text on the file size; otherwise a failure whose message contains
  \<open>Invalid file type\<close> is answered with status 400 and its own message; any other
  failure is answered with status 500 and the generic text, and the body has a
  \<open>details\<close> field, holding the failure's message, exactly when \<open>NODE_ENV\<close> is
  \<open>development\<close>.
\<close>

theorem error_handler_first_match:
  "(limit_file_size e \<longrightarrow>
      error_handler env e =
        Respond 400 [(''Content-Type'', ''application/json; charset=utf-8'')]
          (Json [(''error'', ''File too large. Maximum size is 10MB.'')]))
   \<and> (\<not> limit_file_size e \<and> str_includes (message e) ''Invalid file type'' \<longrightarrow>
      error_handler env e =
        Respond 400 [(''Content-Type'', ''application/json; charset=utf-8'')]
          (Json [(''error'', message e)]))
   \<and> (\<not> limit_file_size e \<and> \<not> str_includes (message e) ''Invalid file type'' \<longrightarrow>
      error_handler env e =
        Respond 500 [(''Content-Type'', ''application/json; charset=utf-8'')]
          (Json ((''error'', ''An unexpected error occurred. Please try again.'')
                 # (if env = Some ''development'' then [(''details'', message e)] else []))))"
  by (simp add: error_handler_def invalid_file_type_iff res_json_def is_development_def)

theorem error_handler_first_match_witness:
  "error_handler (Some ''production'') file_too_large_error =
     Respond 400 [(''Content-Type'', ''application/json; charset=utf-8'')]
       (Json [(''error'', ''File too large. Maximum size is 10MB.'')])
   \<and> error_handler (Some ''production'') invalid_type_error =
     Respond 400 [(''Content-Type'', ''application/json; charset=utf-8'')]
       (Json [(''error'', ''Invalid file type. Only .txt, .md, .json, and .csv files are allowed.'')])
   \<and> error_handler (Some ''development'') cors_error =
     Respond 500 [(''Content-Type'', ''application/json; charset=utf-8'')]
       (Json [(''error'', ''An unexpected error occurred. Please try again.''),
              (''details'', ''Not allowed by CORS'')])
   \<and> error_handler None cors_error =
     Respond 500 [(''Content-Type'', ''application/json; charset=utf-8'')]
       (Json [(''error'', ''An unexpected error occurred. Please try again.'')])"
proof -
  have a: "limit_file_size file_too_large_error"
    by (rule limit_file_size_too_large)
  have b: "\<not> limit_file_size invalid_type_error"
    by (simp add: not_limit_file_size_plain invalid_type_error_def)
  have c: "message invalid_type_error
      = ''Invalid file type. Only .txt, .md, .json, and .csv files are allowed.''"
    by (simp add: invalid_type_error_def)
  have d: "message cors_error = ''Not allowed by CORS''"
    by (simp add: cors_error_def)
  show ?thesis
    using a b c d invalid_type_error_includes cors_error_generic
      error_handler_first_match [of file_too_large_error "Some ''production''"]
      error_handler_first_match [of invalid_type_error "Some ''production''"]
      error_handler_first_match [of cors_error "Some ''development''"]
      error_handler_first_match [of cors_error None]
    by simp
qed

text \<open>
  Claim C9. For a failure that is neither a file-size violation nor an invalid file type,
  the answer has status 500, and its body has a \<open>details\<close> field exactly when
  \<open>NODE_ENV\<close> is \<open>development\<close>; the field then holds the failure's message.
\<close>

theorem generic_failure_details:
  "\<not> limit_file_size e \<Longrightarrow> \<not> invalid_file_type e \<Longrightarrow>
     outcome_status (error_handler env e) = Some 500
     \<and> (json_field (outcome_body (error_handler env e)) ''details'' \<noteq> None)
         = is_development env
     \<and> json_field (outcome_body (error_handler env e)) ''details''
         = (if is_development env then Some (message e) else None)"
  by (simp add: error_handler_def res_json_def outcome_status_def outcome_body_def json_field_def)

theorem generic_failure_details_witness:
  "outcome_status (error_handler (Some ''development'') cors_error) = Some 500
   \<and> json_field (outcome_body (error_handler (Some ''development'') cors_error)) ''details''
       = Some ''Not allowed by CORS''
   \<and> outcome_status (error_handler (Some ''production'') cors_error) = Some 500
   \<and> json_field (outcome_body (error_handler (Some ''production'') cors_error)) ''details''
       = None"
proof -
  have a: "\<not> limit_file_size cors_error"
    using cors_error_generic by simp
  have b: "\<not> invalid_file_type cors_error"
    using cors_error_generic by (simp add: invalid_file_type_iff)
  have c: "message cors_error = ''Not allowed by CORS''"
    by (simp add: cors_error_def)
  show ?thesis
    using c generic_failure_details [OF a b, of "Some ''development''"]
      generic_failure_details [OF a b, of "Some ''production''"]
    by (simp add: is_development_def)
qed

lemma no_details_outside_development:
  "\<not> is_development env \<Longrightarrow>
     json_field (outcome_body (error_handler env e)) ''details'' = None"
  by (simp add: error_handler_def res_json_def outcome_body_def json_field_def)

subsection \<open>Upload admission\<close>











subsection \<open>Dispatch: general facts\<close>

lemma run_Nil: "run cfg col r [] c = c"
  by (simp add: run_def)

lemma run_Cons: "run cfg col r (l # ls) c = run cfg col r ls (step cfg col r l c)"
  by (simp add: run_def)

lemma run_append: "run cfg col r (xs @ ys) c = run cfg col r ys (run cfg col r xs c)"
  by (simp add: run_def)

lemma step_Done: "flow c = Done resp \<Longrightarrow> step cfg col r l c = c"
  by (simp add: step_def)

lemma run_Done: "flow c = Done resp \<Longrightarrow> run cfg col r ls c = c"
  by (induction ls) (simp_all add: run_Nil run_Cons step_Done)

lemma advance_trace: "\<exists>v. trace (advance c s ol) = trace c @ [(s, v)]"
  by (cases ol; cases "fst ol") (auto simp: advance_def)

lemma step_trace:
  "trace (step cfg col r l c) = trace c
   \<or> (\<exists>v. trace (step cfg col r l c) = trace c @ [(snd l, v)])"
  using advance_trace [of c "snd l"]
  by (cases "flow c") (auto simp: step_def)

lemma run_trace:
  "\<exists>t. trace (run cfg col r ls c) = trace c @ t \<and> fst ` set t \<subseteq> snd ` set ls"
proof (induction ls arbitrary: c)
  case Nil
  then show ?case by (simp add: run_Nil)
next
  case (Cons l ls)
  obtain t where t: "trace (run cfg col r ls (step cfg col r l c)) = trace (step cfg col r l c) @ t"
    "fst ` set t \<subseteq> snd ` set ls"
    using Cons.IH by blast
  from step_trace [of cfg col r l c]
  show ?case
  proof
    assume "trace (step cfg col r l c) = trace c"
    with t show ?thesis by (auto simp: run_Cons)
  next
    assume "\<exists>v. trace (step cfg col r l c) = trace c @ [(snd l, v)]"
    then obtain v where "trace (step cfg col r l c) = trace c @ [(snd l, v)]" ..
    with t have "trace (run cfg col r (l # ls) c) = trace c @ ((snd l, v) # t)"
      by (simp add: run_Cons)
    moreover have "fst ` set ((snd l, v) # t) \<subseteq> snd ` set (l # ls)"
      using t(2) by auto
    ultimately show ?thesis by blast
  qed
qed

text \<open>No stage takes a header off the response.\<close>

lemma advance_headers:
  assumes "\<forall>resp. flow c \<noteq> Done resp"
  shows "set (sent_headers c) \<subseteq> set (sent_headers (advance c s ol))"
  using assms
  by (cases ol; cases "fst ol"; cases "flow c") (auto simp: advance_def sent_headers_def)

lemma step_headers: "set (sent_headers c) \<subseteq> set (sent_headers (step cfg col r l c))"
proof (cases "flow c")
  case (Done resp)
  then show ?thesis by (simp add: step_Done)
next
  case Running
  then show ?thesis using advance_headers [of c] by (simp add: step_def)
next
  case (Failing err)
  then show ?thesis using advance_headers [of c] by (simp add: step_def)
qed

lemma run_headers: "set (sent_headers c) \<subseteq> set (sent_headers (run cfg col r ls c))"
proof (induction ls arbitrary: c)
  case Nil
  then show ?case by (simp add: run_Nil)
next
  case (Cons l ls)
  have "set (sent_headers c) \<subseteq> set (sent_headers (step cfg col r l c))"
    by (rule step_headers)
  also have "\<dots> \<subseteq> set (sent_headers (run cfg col r ls (step cfg col r l c)))"
    by (rule Cons.IH)
  finally show ?case by (simp add: run_Cons)
qed

text \<open>The error handler and the 404 handler close the list: every request is answered.\<close>

lemma closing_layers:
  "\<exists>resp. flow (run cfg col r [(UseError, ErrorHandler), (UseAll, NotFound)] c) = Done resp"
proof (cases "flow c")
  case (Done resp)
  then show ?thesis by (simp add: run_Done)
next
  case Running
  then show ?thesis
    by (simp add: run_Cons run_Nil step_def advance_def not_found_def res_json_def)
next
  case (Failing err)
  obtain st hs b where "error_handler (NODE_ENV cfg) err = Respond st hs b"
    using error_handler_responds by blast
  with Failing show ?thesis
    by (simp add: run_Cons run_Nil step_def advance_def)
qed

lemma app_closing: "app = take 18 app @ [(UseError, ErrorHandler), (UseAll, NotFound)]"
  by (simp add: app_def)

lemma handle_responds: "\<exists>resp. flow (handle cfg col lim r) = Done resp"
  unfolding handle_def
  by (subst app_closing) (simp only: run_append closing_layers)

subsection \<open>Security headers\<close>

lemma first_two_layers:
  "run cfg col r (take 2 app) (start lim) =
     \<lparr>flow = Running, res_headers = helmet_headers cfg @ custom_headers cfg, limits = lim,
      trace = [(Helmet, Passed), (SecurityHeaders, Passed)]\<rparr>"
  by (simp add: app_def run_Cons run_Nil step_def advance_def start_def
      security_middleware_def)

text \<open>
  Claim C6. Every request is answered, and whichever stage answers it (a route, a
  limiter, the CORS preflight, the error handler or the 404 handler), the response
  carries every header set by the two security middleware, which are the first two layers.
\<close>

theorem security_headers_on_every_response:
  "\<exists>resp. response_of (handle cfg col lim r) = Some resp
     \<and> set (helmet_headers cfg @ custom_headers cfg) \<subseteq> set (headers resp)"
proof -
  obtain resp where resp: "flow (handle cfg col lim r) = Done resp"
    using handle_responds by blast
  have "app = take 2 app @ drop 2 app"
    by simp
  then have "handle cfg col lim r
      = run cfg col r (drop 2 app) (run cfg col r (take 2 app) (start lim))"
    unfolding handle_def by (metis run_append)
  moreover have "set (sent_headers (run cfg col r (take 2 app) (start lim)))
      \<subseteq> set (sent_headers (run cfg col r (drop 2 app) (run cfg col r (take 2 app) (start lim))))"
    by (rule run_headers)
  ultimately have "set (helmet_headers cfg @ custom_headers cfg)
      \<subseteq> set (sent_headers (handle cfg col lim r))"
    by (simp add: first_two_layers sent_headers_def)
  with resp show ?thesis
    by (auto simp: sent_headers_def response_of_def)
qed

subsection \<open>Path matching\<close>



lemma match_use_iff:
  "match_use m p = (\<exists>zs. lower p = lower (strip_slash m) @ zs \<and> (zs = [] \<or> hd zs = CHR ''/''))"
proof -
  have "(case zs of [] \<Rightarrow> True | c # cs \<Rightarrow> c = CHR ''/'') = (zs = [] \<or> hd zs = CHR ''/'')" for zs :: string
    by (cases zs) simp_all
  then show ?thesis
    by (auto simp: match_use_def Let_def prefix_def)
qed

lemma mounts:
  "lower (strip_slash ''/api/'') = ''/api''"
  "lower (strip_slash ''/api/upload'') = ''/api'' @ ''/upload''"
  "lower (strip_slash ''/api/summarize'') = ''/api'' @ ''/summarize''"
  "lower (strip_slash ''/api/share'') = ''/api'' @ ''/share''"
  "lower (strip_slash ''/api/pdf'') = ''/api'' @ ''/pdf''"
  "lower (strip_slash ''/api/templates'') = ''/api'' @ ''/templates''"
  "lower (strip_slash ''/api/version-history'') = ''/api'' @ ''/version-history''"
  "lower (strip_slash ''/api/export'') = ''/api'' @ ''/export''"
  "lower (strip_slash ''/api/health'') = ''/api'' @ ''/health''"
  by (simp_all add: strip_slash_def lower_def lower_char_def)

lemma under_api_gen:
  assumes "lower (strip_slash m) = ''/api'' @ CHR ''/'' # ys" "match_use m p"
  shows "match_use ''/api/'' p"
proof -
  obtain zs where "lower p = lower (strip_slash m) @ zs"
    using assms(2) unfolding match_use_iff by blast
  then have "lower p = ''/api'' @ (CHR ''/'' # ys @ zs)"
    using assms(1) by simp
  then show ?thesis
    unfolding match_use_iff mounts(1) by (intro exI [of _ "CHR ''/'' # ys @ zs"]) simp
qed

lemma under_api:
  "match_use ''/api/upload'' p \<Longrightarrow> match_use ''/api/'' p"
  "match_use ''/api/summarize'' p \<Longrightarrow> match_use ''/api/'' p"
  "match_use ''/api/share'' p \<Longrightarrow> match_use ''/api/'' p"
  "match_use ''/api/pdf'' p \<Longrightarrow> match_use ''/api/'' p"
  "match_use ''/api/templates'' p \<Longrightarrow> match_use ''/api/'' p"
  "match_use ''/api/version-history'' p \<Longrightarrow> match_use ''/api/'' p"
  "match_use ''/api/export'' p \<Longrightarrow> match_use ''/api/'' p"
  by (erule under_api_gen [rotated], simp add: mounts)+

lemma lower_strip_slash:
  "lower (strip_slash p) = l \<Longrightarrow> lower p = l \<or> lower p = l @ ''/''"
  by (cases p rule: rev_cases) (auto simp: strip_slash_def lower_def lower_char_def split: if_splits)

lemma health_under_api:
  assumes "match_exact ''/api/health'' p"
  shows "match_use ''/api/'' p"
proof -
  have "lower (strip_slash p) = ''/api'' @ ''/health''"
    using assms by (simp add: match_exact_def mounts)
  then have "lower p = ''/api'' @ ''/health'' \<or> lower p = ''/api'' @ ''/health/''"
    using lower_strip_slash [of p] by auto
  then show ?thesis
    unfolding match_use_iff mounts(1) by auto
qed

lemma summarize_not_pdf: "match_use ''/api/summarize'' p \<Longrightarrow> \<not> match_use ''/api/pdf'' p"
  unfolding match_use_iff mounts by auto


lemma step_skip: "\<not> matches (fst l) r \<Longrightarrow> step cfg col r l c = c"
  by (cases "flow c") (simp_all add: step_def)

lemma step_skip_failing:
  "flow c = Failing err \<Longrightarrow> \<not> error_layer (fst l) \<Longrightarrow> step cfg col r l c = c"
  by (simp add: step_def)

lemma run_skip_failing:
  "flow c = Failing err \<Longrightarrow> list_all (\<lambda>l. \<not> error_layer (fst l)) ls \<Longrightarrow> run cfg col r ls c = c"
  by (induction ls) (simp_all add: run_Nil run_Cons step_skip_failing)

lemma step_trace_matches:
  "trace (step cfg col r l c) = trace c
   \<or> (matches (fst l) r \<and> (\<exists>v. trace (step cfg col r l c) = trace c @ [(snd l, v)]))"
proof (cases "matches (fst l) r")
  case True
  then show ?thesis using step_trace [of cfg col r l c] by simp
next
  case False
  then show ?thesis by (simp add: step_skip)
qed

lemma never_runs:
  assumes "list_all (\<lambda>l. snd l \<noteq> s \<or> \<not> matches (fst l) r) ls" "\<not> ran s c"
  shows "\<not> ran s (run cfg col r ls c)"
  using assms
proof (induction ls arbitrary: c)
  case Nil
  then show ?case by (simp add: run_Nil)
next
  case (Cons l ls)
  have "\<not> ran s (step cfg col r l c)"
    using step_trace_matches [of cfg col r l c] Cons.prems by (auto simp: ran_def)
  then show ?case
    using Cons by (simp add: run_Cons)
qed

text \<open>A stage that later handlers depend on: none of them runs unless it has passed.\<close>

lemma guard_step:
  assumes wf: "error_layer (fst l) \<longrightarrow> snd l = ErrorHandler" and p: "\<not> P ErrorHandler"
    and inv: "flow c = Running \<or> (\<exists>s. P s \<and> ran s c) \<longrightarrow> e \<in> set (trace c)"
  shows "flow (step cfg col r l c) = Running \<or> (\<exists>s. P s \<and> ran s (step cfg col r l c))
     \<longrightarrow> e \<in> set (trace (step cfg col r l c))"
proof (cases "flow c")
  case (Done resp)
  then show ?thesis using inv by (simp add: step_Done)
next
  case Running
  then have "e \<in> set (trace c)" using inv by simp
  moreover have "set (trace c) \<subseteq> set (trace (step cfg col r l c))"
    using step_trace [of cfg col r l c] by auto
  ultimately show ?thesis by auto
next
  case (Failing err)
  show ?thesis
  proof (cases "error_layer (fst l) \<and> matches (fst l) r")
    case False
    then have "step cfg col r l c = c" using Failing by (auto simp: step_def)
    then show ?thesis using inv by simp
  next
    case True
    then have s: "snd l = ErrorHandler" using wf by simp
    obtain st hs b where "error_handler (NODE_ENV cfg) err = Respond st hs b"
      using error_handler_responds by blast
    then have "step cfg col r l c =
        c\<lparr>flow := Done \<lparr>status = st, headers = res_headers c @ hs, body = b\<rparr>,
          limits := limits c, trace := trace c @ [(ErrorHandler, Ended)]\<rparr>"
      using Failing True s by (simp add: step_def advance_def)
    then show ?thesis
      using inv p by (auto simp: ran_def)
  qed
qed

lemma guard_run:
  assumes "list_all (\<lambda>l. error_layer (fst l) \<longrightarrow> snd l = ErrorHandler) ls" "\<not> P ErrorHandler"
    and "flow c = Running \<or> (\<exists>s. P s \<and> ran s c) \<longrightarrow> e \<in> set (trace c)"
  shows "flow (run cfg col r ls c) = Running \<or> (\<exists>s. P s \<and> ran s (run cfg col r ls c))
     \<longrightarrow> e \<in> set (trace (run cfg col r ls c))"
  using assms
proof (induction ls arbitrary: c)
  case Nil
  then show ?case by (simp add: run_Nil)
next
  case (Cons l ls)
  have "flow (step cfg col r l c) = Running \<or> (\<exists>s. P s \<and> ran s (step cfg col r l c))
     \<longrightarrow> e \<in> set (trace (step cfg col r l c))"
    using Cons.prems by (intro guard_step) simp_all
  then show ?case
    using Cons by (simp add: run_Cons)
qed

text \<open>The first three layers run for every request.\<close>

lemma first_three_layers:
  "run cfg col r (take 3 app) (start lim) =
     advance \<lparr>flow = Running, res_headers = helmet_headers cfg @ custom_headers cfg, limits = lim,
        trace = [(Helmet, Passed), (SecurityHeaders, Passed)]\<rparr> Cors (cors (allowedOrigins cfg) r, lim)"
  by (simp add: app_def run_Cons run_Nil step_def advance_def start_def
      security_middleware_def)

subsection \<open>Body size\<close>

lemma generic_response:
  "\<not> limit_file_size e \<Longrightarrow> \<not> invalid_file_type e \<Longrightarrow>
     error_handler env e =
       Respond 500 [(''Content-Type'', ''application/json; charset=utf-8'')]
         (Json ((''error'', ''An unexpected error occurred. Please try again.'')
                # (if env = Some ''development'' then [(''details'', message e)] else [])))"
  by (simp add: error_handler_def res_json_def is_development_def)

lemma entity_too_large_generic:
  "\<not> limit_file_size entity_too_large" "\<not> invalid_file_type entity_too_large"
  "message entity_too_large = ''request entity too large''"
  by (simp_all add: entity_too_large_def limit_file_size_def invalid_file_type_def)

lemma entity_too_large_response:
  "error_handler env entity_too_large =
     Respond 500 [(''Content-Type'', ''application/json; charset=utf-8'')]
       (Json ((''error'', ''An unexpected error occurred. Please try again.'')
              # (if env = Some ''development''
                 then [(''details'', ''request entity too large'')] else [])))"
  using generic_response [of entity_too_large env] entity_too_large_generic by simp

text \<open>From a pending failure, the rest of the application reaches the error handler only.\<close>

lemma failing_to_error_handler:
  assumes "flow c = Failing e" "list_all (\<lambda>l. \<not> error_layer (fst l)) ls"
    and "error_handler (NODE_ENV cfg) e = Respond st hs b"
  shows "run cfg col r (ls @ [(UseError, ErrorHandler), (UseAll, NotFound)]) c =
     c\<lparr>flow := Done \<lparr>status = st, headers = res_headers c @ hs, body = b\<rparr>,
       trace := trace c @ [(ErrorHandler, Ended)]\<rparr>"
proof -
  have "run cfg col r ls c = c"
    using assms(1,2) by (rule run_skip_failing)
  moreover have "step cfg col r (UseError, ErrorHandler) c =
     c\<lparr>flow := Done \<lparr>status = st, headers = res_headers c @ hs, body = b\<rparr>,
       trace := trace c @ [(ErrorHandler, Ended)]\<rparr>"
    using assms(1,3) by (simp add: step_def advance_def)
  ultimately show ?thesis
    by (simp add: run_append run_Cons run_Nil step_Done)
qed

lemma oversize_json:
  assumes "flow c = Running" "content r = Some p" "kind p = JsonBody" "body_limit < body_length p"
  shows "run cfg col r (drop 7 app) c =
     c\<lparr>flow := Done \<lparr>status = 500,
           headers = res_headers c @ [(''Content-Type'', ''application/json; charset=utf-8'')],
           body = Json ((''error'', ''An unexpected error occurred. Please try again.'')
                  # (if NODE_ENV cfg = Some ''development''
                     then [(''details'', ''request entity too large'')] else []))\<rparr>,
       trace := trace c @ [(JsonParser, Failed), (ErrorHandler, Ended)]\<rparr>"
proof -
  let ?c = "c\<lparr>flow := Failing entity_too_large, trace := trace c @ [(JsonParser, Failed)]\<rparr>"
  have one: "step cfg col r (UseAll, JsonParser) c = ?c"
    using assms by (simp add: step_def advance_def body_parser_def)
  have split: "drop 7 app = (UseAll, JsonParser) # take 10 (drop 8 app)
      @ [(UseError, ErrorHandler), (UseAll, NotFound)]"
    by (simp add: app_def)
  have "flow ?c = Failing entity_too_large"
    by simp
  moreover have "list_all (\<lambda>l. \<not> error_layer (fst l)) (take 10 (drop 8 app))"
    by (simp add: app_def)
  ultimately have "run cfg col r (take 10 (drop 8 app) @ [(UseError, ErrorHandler), (UseAll, NotFound)]) ?c =
     ?c\<lparr>flow := Done \<lparr>status = 500,
           headers = res_headers ?c @ [(''Content-Type'', ''application/json; charset=utf-8'')],
           body = Json ((''error'', ''An unexpected error occurred. Please try again.'')
                  # (if NODE_ENV cfg = Some ''development''
                     then [(''details'', ''request entity too large'')] else []))\<rparr>,
       trace := trace ?c @ [(ErrorHandler, Ended)]\<rparr>"
    using entity_too_large_response by (rule failing_to_error_handler)
  then show ?thesis
    by (simp add: split run_Cons one)
qed

lemma oversize_form:
  assumes "flow c = Running" "content r = Some p" "kind p = FormBody" "body_limit < body_length p"
  shows "run cfg col r (drop 7 app) c =
     c\<lparr>flow := Done \<lparr>status = 500,
           headers = res_headers c @ [(''Content-Type'', ''application/json; charset=utf-8'')],
           body = Json ((''error'', ''An unexpected error occurred. Please try again.'')
                  # (if NODE_ENV cfg = Some ''development''
                     then [(''details'', ''request entity too large'')] else []))\<rparr>,
       trace := trace c @ [(JsonParser, Passed), (UrlencodedParser, Failed), (ErrorHandler, Ended)]\<rparr>"
proof -
  let ?c = "c\<lparr>flow := Failing entity_too_large,
      trace := trace c @ [(JsonParser, Passed), (UrlencodedParser, Failed)]\<rparr>"
  have two: "run cfg col r [(UseAll, JsonParser), (UseAll, UrlencodedParser)] c = ?c"
    using assms by (simp add: run_Cons run_Nil step_def advance_def body_parser_def)
  have split: "drop 7 app = [(UseAll, JsonParser), (UseAll, UrlencodedParser)]
      @ (take 9 (drop 9 app) @ [(UseError, ErrorHandler), (UseAll, NotFound)])"
    by (simp add: app_def)
  have "flow ?c = Failing entity_too_large"
    by simp
  moreover have "list_all (\<lambda>l. \<not> error_layer (fst l)) (take 9 (drop 9 app))"
    by (simp add: app_def)
  ultimately have "run cfg col r (take 9 (drop 9 app) @ [(UseError, ErrorHandler), (UseAll, NotFound)]) ?c =
     ?c\<lparr>flow := Done \<lparr>status = 500,
           headers = res_headers ?c @ [(''Content-Type'', ''application/json; charset=utf-8'')],
           body = Json ((''error'', ''An unexpected error occurred. Please try again.'')
                  # (if NODE_ENV cfg = Some ''development''
                     then [(''details'', ''request entity too large'')] else []))\<rparr>,
       trace := trace ?c @ [(ErrorHandler, Ended)]\<rparr>"
    using entity_too_large_response by (rule failing_to_error_handler)
  then show ?thesis
    by (simp only: split run_append two) simp
qed

lemma within_limit:
  assumes "flow c = Running" "content r = Some p" "body_length p \<le> body_limit"
  shows "run cfg col r [(UseAll, JsonParser), (UseAll, UrlencodedParser)] c =
     c\<lparr>trace := trace c @ [(JsonParser, Passed), (UrlencodedParser, Passed)]\<rparr>"
  using assms by (simp add: run_Cons run_Nil step_def advance_def body_parser_def)

text \<open>
  Claim C7. The limit of both body parsers is 10 * 1024 * 1024 bytes. A JSON or
  form-encoded body of exactly that length passes both parsers, and the request goes on
  to the routes. A body one byte longer makes the parser of its content type fail with
  \<open>request entity too large\<close>; from the parsers on, only the error handler runs, no
  route does, and the request is answered with status 500.
\<close>

theorem body_limit_boundary:
  "flow c = Running \<Longrightarrow> content r = Some p \<Longrightarrow> kind p = JsonBody \<or> kind p = FormBody \<Longrightarrow>
     body_limit = 10 * 1024 * 1024
     \<and> (body_length p = body_limit \<longrightarrow>
          body_parser JsonBody r = Next [] \<and> body_parser FormBody r = Next []
          \<and> run cfg col r (take 2 (drop 7 app)) c =
              c\<lparr>trace := trace c @ [(JsonParser, Passed), (UrlencodedParser, Passed)]\<rparr>)
     \<and> (body_length p = body_limit + 1 \<longrightarrow>
          body_parser (kind p) r = Throw entity_too_large
          \<and> (\<exists>t. trace (run cfg col r (drop 7 app) c) = trace c @ t
                \<and> set t \<subseteq> {(JsonParser, Passed), (JsonParser, Failed),
                            (UrlencodedParser, Failed), (ErrorHandler, Ended)})
          \<and> (\<exists>resp. response_of (run cfg col r (drop 7 app) c) = Some resp \<and> status resp = 500))"
proof -
  assume c: "flow c = Running" and p: "content r = Some p" and k: "kind p = JsonBody \<or> kind p = FormBody"
  have a: "body_limit = 10 * 1024 * 1024"
    by (simp add: body_limit_def)
  have b: "body_parser JsonBody r = Next [] \<and> body_parser FormBody r = Next []
          \<and> run cfg col r (take 2 (drop 7 app)) c =
              c\<lparr>trace := trace c @ [(JsonParser, Passed), (UrlencodedParser, Passed)]\<rparr>"
    if "body_length p = body_limit"
  proof -
    have "take 2 (drop 7 app) = [(UseAll, JsonParser), (UseAll, UrlencodedParser)]"
      by (simp add: app_def)
    then show ?thesis
      using within_limit [OF c p, of cfg col] that p by (simp add: body_parser_def)
  qed
  have d: "body_parser (kind p) r = Throw entity_too_large
          \<and> (\<exists>t. trace (run cfg col r (drop 7 app) c) = trace c @ t
                \<and> set t \<subseteq> {(JsonParser, Passed), (JsonParser, Failed),
                            (UrlencodedParser, Failed), (ErrorHandler, Ended)})
          \<and> (\<exists>resp. response_of (run cfg col r (drop 7 app) c) = Some resp \<and> status resp = 500)"
    if "body_length p = body_limit + 1"
  proof -
    have over: "body_limit < body_length p" using that by simp
    have "body_parser (kind p) r = Throw entity_too_large"
      using p over by (simp add: body_parser_def)
    moreover have "(\<exists>t. trace (run cfg col r (drop 7 app) c) = trace c @ t
                \<and> set t \<subseteq> {(JsonParser, Passed), (JsonParser, Failed),
                            (UrlencodedParser, Failed), (ErrorHandler, Ended)})
          \<and> (\<exists>resp. response_of (run cfg col r (drop 7 app) c) = Some resp \<and> status resp = 500)"
      using k
    proof
      assume "kind p = JsonBody"
      from oversize_json [OF c p this over, of cfg col]
      show ?thesis by (simp add: response_of_def)
    next
      assume "kind p = FormBody"
      from oversize_form [OF c p this over, of cfg col]
      show ?thesis by (simp add: response_of_def)
    qed
    ultimately show ?thesis by simp
  qed
  show ?thesis using a b d by blast
qed

theorem body_limit_boundary_witness:
  "body_parser JsonBody
     ((request_to POST ''/api/summarize'')
        \<lparr>content := Some \<lparr>kind = JsonBody, body_length = 10 * 1024 * 1024\<rparr>\<rparr>) = Next []
   \<and> body_parser FormBody
     ((request_to POST ''/api/summarize'')
        \<lparr>content := Some \<lparr>kind = FormBody, body_length = 10 * 1024 * 1024 + 1\<rparr>\<rparr>)
       = Throw entity_too_large
   \<and> (\<exists>resp. response_of
         (run sample_config sample_routes
            ((request_to POST ''/api/summarize'')
               \<lparr>content := Some \<lparr>kind = FormBody, body_length = 10 * 1024 * 1024 + 1\<rparr>\<rparr>)
            (drop 7 app) (start no_hits)) = Some resp
       \<and> status resp = 500)"
proof -
  let ?p = "\<lparr>kind = JsonBody, body_length = 10 * 1024 * 1024\<rparr>"
  let ?q = "\<lparr>kind = FormBody, body_length = 10 * 1024 * 1024 + 1\<rparr>"
  let ?r = "(request_to POST ''/api/summarize'')\<lparr>content := Some ?p\<rparr>"
  let ?s = "(request_to POST ''/api/summarize'')\<lparr>content := Some ?q\<rparr>"
  have c: "flow (start no_hits) = Running"
    by (simp add: start_def)
  have p: "content ?r = Some ?p" "kind ?p = JsonBody \<or> kind ?p = FormBody"
    "body_length ?p = body_limit"
    by (simp_all add: body_limit_def)
  have q: "content ?s = Some ?q" "kind ?q = JsonBody \<or> kind ?q = FormBody"
    "body_length ?q = body_limit + 1" "kind ?q = FormBody"
    by (simp_all add: body_limit_def)
  show ?thesis
    using body_limit_boundary [OF c p(1) p(2), of sample_config sample_routes]
      body_limit_boundary [OF c q(1) q(2), of sample_config sample_routes] p(3) q(3) q(4)
    by metis
qed


subsection \<open>Rate limiting\<close>












subsection \<open>Stacked limiters\<close>


lemma gate_step:
  assumes "\<not> error_layer (fst l)" "matches (fst l) r" "flow (step cfg col r l c) = Running"
  shows "(snd l, Passed) \<in> set (trace (step cfg col r l c))"
proof (cases "flow c")
  case Running
  obtain out lim' where o: "run_stage cfg col r (limits c) None (snd l) = (out, lim')"
    by (cases "run_stage cfg col r (limits c) None (snd l)")
  with Running assms show ?thesis
    by (cases out) (simp_all add: step_def advance_def)
next
  case (Failing err)
  with assms show ?thesis by (simp add: step_def)
next
  case (Done resp)
  with assms show ?thesis by (simp add: step_def)
qed

lemma gate:
  assumes split: "ls = pre @ l # post"
    and wf: "list_all (\<lambda>l. error_layer (fst l) \<longrightarrow> snd l = ErrorHandler) post"
    and l: "\<not> error_layer (fst l)" "matches (fst l) r"
    and s: "s \<noteq> ErrorHandler" "s \<notin> snd ` set (pre @ [l])"
    and ran: "ran s (run cfg col r ls (start lim))"
  shows "(snd l, Passed) \<in> set (trace (run cfg col r ls (start lim)))"
proof -
  let ?c = "run cfg col r (pre @ [l]) (start lim)"
  have run: "run cfg col r ls (start lim) = run cfg col r post ?c"
    by (simp add: split run_append run_Cons run_Nil)
  obtain t where "trace ?c = trace (start lim) @ t" "fst ` set t \<subseteq> snd ` set (pre @ [l])"
    using run_trace by blast
  then have not_yet: "\<not> ran s ?c"
    using s(2) by (auto simp: ran_def start_def)
  have "?c = step cfg col r l (run cfg col r pre (start lim))"
    by (simp add: run_append run_Cons run_Nil)
  then have "flow ?c = Running \<longrightarrow> (snd l, Passed) \<in> set (trace ?c)"
    using gate_step [OF l] by simp
  with not_yet have "flow ?c = Running \<or> (\<exists>s'. s' = s \<and> ran s' ?c) \<longrightarrow> (snd l, Passed) \<in> set (trace ?c)"
    by simp
  with wf s(1) have "flow (run cfg col r post ?c) = Running \<or> (\<exists>s'. s' = s \<and> ran s' (run cfg col r post ?c))
      \<longrightarrow> (snd l, Passed) \<in> set (trace (run cfg col r post ?c))"
    using guard_run [where ls = post and c = ?c and P = "\<lambda>s'. s' = s" and e = "(snd l, Passed)"]
    by simp
  with ran run show ?thesis by simp
qed

lemma run_skip_layer:
  "\<not> matches (fst l) r \<Longrightarrow> run cfg col r (pre @ l # post) c = run cfg col r (pre @ post) c"
  by (simp add: run_append run_Cons step_skip)

lemma advance_limits: "limits (advance c s (out, lim')) = lim'"
  by (cases out) (simp_all add: advance_def)

lemma run_stage_limits:
  "s \<noteq> Limiter n \<Longrightarrow> snd (run_stage cfg col r lim pending s) n = lim n"
  by (cases s; cases pending) (auto split: prod.splits)

lemma step_limits: "snd l \<noteq> Limiter n \<Longrightarrow> limits (step cfg col r l c) n = limits c n"
proof (cases "flow c")
  case Running
  assume "snd l \<noteq> Limiter n"
  then show ?thesis
    using Running run_stage_limits [of "snd l" n cfg col r "limits c" None]
    by (cases "run_stage cfg col r (limits c) None (snd l)") (simp add: step_def advance_limits)
next
  case (Failing err)
  assume "snd l \<noteq> Limiter n"
  then show ?thesis
    using Failing run_stage_limits [of "snd l" n cfg col r "limits c" "Some err"]
    by (cases "run_stage cfg col r (limits c) (Some err) (snd l)") (simp add: step_def advance_limits)
next
  case (Done resp)
  then show ?thesis by (simp add: step_def)
qed

lemma run_limits: "Limiter n \<notin> snd ` set ls \<Longrightarrow> limits (run cfg col r ls c) n = limits c n"
  by (induction ls arbitrary: c) (auto simp: run_Nil run_Cons step_limits)

lemma passed_step:
  assumes "(s, Passed) \<in> set (trace (step cfg col r l c))" "(s, Passed) \<notin> set (trace c)"
    "\<not> error_layer (fst l)"
  shows "snd l = s \<and> (\<exists>hs. fst (run_stage cfg col r (limits c) None s) = Next hs)"
proof (cases "flow c")
  case Running
  obtain out lim' where o: "run_stage cfg col r (limits c) None (snd l) = (out, lim')"
    by (cases "run_stage cfg col r (limits c) None (snd l)")
  with Running assms show ?thesis
    by (cases out) (auto simp: step_def advance_def split: if_splits)
next
  case (Failing err)
  with assms show ?thesis by (simp add: step_def)
next
  case (Done resp)
  with assms show ?thesis by (simp add: step_def)
qed

lemma single_run:
  assumes split: "ls = pre @ l # post"
    and l: "\<not> error_layer (fst l)" "snd l \<notin> snd ` set pre" "snd l \<notin> snd ` set post"
    and passed: "(snd l, Passed) \<in> set (trace (run cfg col r ls (start lim)))"
  shows "\<exists>hs. fst (run_stage cfg col r (limits (run cfg col r pre (start lim))) None (snd l)) = Next hs"
proof -
  let ?c = "run cfg col r pre (start lim)"
  obtain t where t: "trace ?c = trace (start lim) @ t" "fst ` set t \<subseteq> snd ` set pre"
    using run_trace by blast
  obtain u where u: "trace (run cfg col r post (step cfg col r l ?c)) = trace (step cfg col r l ?c) @ u"
    "fst ` set u \<subseteq> snd ` set post"
    using run_trace by blast
  have "run cfg col r ls (start lim) = run cfg col r post (step cfg col r l ?c)"
    by (simp add: split run_append run_Cons)
  moreover have "(snd l, Passed) \<notin> set u"
    using u(2) l(3) by (metis fst_conv image_eqI subsetD)
  ultimately have "(snd l, Passed) \<in> set (trace (step cfg col r l ?c))"
    using passed u(1) by simp
  moreover have "(snd l, Passed) \<notin> set t"
    using t(2) l(2) by (metis fst_conv image_eqI subsetD)
  then have "(snd l, Passed) \<notin> set (trace ?c)"
    using t(1) by (simp add: start_def)
  ultimately show ?thesis
    using passed_step [of "snd l" cfg col r l ?c] l(1) by simp
qed

lemma limiter_Next:
  "fst (run_stage cfg col r lim' None (Limiter n)) = Next hs \<Longrightarrow>
     fst (admit (rate_limits cfg n) (arrival r) (lim' n (client r)))"
  by (cases "admit (rate_limits cfg n) (arrival r) (lim' n (client r))")
     (auto simp: limiter_def rate_limit_error_def res_json_def split: if_splits)


lemma start_not_ran: "\<not> ran s (start lim)"
  by (simp add: ran_def start_def)

lemma outside_api_never_runs:
  assumes "\<not> match_use ''/api/'' (path r)" "s = Health \<or> s = Group g"
  shows "\<not> ran s (handle cfg col lim r)"
proof -
  have no: "\<not> match_use ''/api/upload'' (path r)" "\<not> match_use ''/api/summarize'' (path r)"
    "\<not> match_use ''/api/share'' (path r)" "\<not> match_use ''/api/pdf'' (path r)"
    "\<not> match_use ''/api/templates'' (path r)" "\<not> match_use ''/api/version-history'' (path r)"
    "\<not> match_use ''/api/export'' (path r)" "\<not> match_exact ''/api/health'' (path r)"
    using assms(1) under_api health_under_api by blast+
  have "list_all (\<lambda>l. snd l \<noteq> s \<or> \<not> matches (fst l) r) app"
    using assms(2) no by (cases g) (auto simp: app_def)
  then show ?thesis
    unfolding handle_def using start_not_ran by (rule never_runs)
qed

lemma general_gate:
  assumes "ran s (handle cfg col lim r)" "s = Health \<or> s = Group g"
  shows "(Limiter generalLimiter, Passed) \<in> set (trace (handle cfg col lim r))"
proof -
  have m: "match_use ''/api/'' (path r)"
    using assms outside_api_never_runs by blast
  have "(snd (Use ''/api/'', Limiter generalLimiter), Passed) \<in> set (trace (run cfg col r app (start lim)))"
  proof (rule gate [where pre = "take 3 app" and post = "drop 4 app" and s = s])
    show "app = take 3 app @ (Use ''/api/'', Limiter generalLimiter) # drop 4 app"
      by (simp add: app_def)
    show "list_all (\<lambda>l. error_layer (fst l) \<longrightarrow> snd l = ErrorHandler) (drop 4 app)"
      by (simp add: app_def)
    show "s \<notin> snd ` set (take 3 app @ [(Use ''/api/'', Limiter generalLimiter)])"
      using assms(2) by (auto simp: app_def)
    show "ran s (run cfg col r app (start lim))"
      using assms(1) by (simp add: handle_def)
  qed (use m assms(2) in auto)
  then show ?thesis by (simp add: handle_def)
qed

lemma upload_gate:
  assumes "ran (Group Upload) (handle cfg col lim r)"
  shows "(Limiter uploadLimiter, Passed) \<in> set (trace (handle cfg col lim r))"
proof -
  have m: "match_use ''/api/upload'' (path r)"
  proof (rule ccontr)
    assume "\<not> match_use ''/api/upload'' (path r)"
    then have "list_all (\<lambda>l. snd l \<noteq> Group Upload \<or> \<not> matches (fst l) r) app"
      by (simp add: app_def)
    then have "\<not> ran (Group Upload) (handle cfg col lim r)"
      unfolding handle_def using start_not_ran by (rule never_runs)
    with assms show False by simp
  qed
  have "(snd (Use ''/api/upload'', Limiter uploadLimiter), Passed) \<in> set (trace (run cfg col r app (start lim)))"
  proof (rule gate [where pre = "take 4 app" and post = "drop 5 app" and s = "Group Upload"])
    show "app = take 4 app @ (Use ''/api/upload'', Limiter uploadLimiter) # drop 5 app"
      by (simp add: app_def)
    show "list_all (\<lambda>l. error_layer (fst l) \<longrightarrow> snd l = ErrorHandler) (drop 5 app)"
      by (simp add: app_def)
    show "Group Upload \<notin> snd ` set (take 4 app @ [(Use ''/api/upload'', Limiter uploadLimiter)])"
      by (auto simp: app_def)
    show "ran (Group Upload) (run cfg col r app (start lim))"
      using assms(1) by (simp add: handle_def)
  qed (use m in auto)
  then show ?thesis by (simp add: handle_def)
qed

lemma summarize_gate:
  assumes "ran (Group Summarize) (handle cfg col lim r)"
  shows "(Limiter apiLimiter, Passed) \<in> set (trace (handle cfg col lim r))"
proof -
  have m: "match_use ''/api/summarize'' (path r)"
  proof (rule ccontr)
    assume "\<not> match_use ''/api/summarize'' (path r)"
    then have "list_all (\<lambda>l. snd l \<noteq> Group Summarize \<or> \<not> matches (fst l) r) app"
      by (simp add: app_def)
    then have "\<not> ran (Group Summarize) (handle cfg col lim r)"
      unfolding handle_def using start_not_ran by (rule never_runs)
    with assms show False by simp
  qed
  have "(snd (Use ''/api/summarize'', Limiter apiLimiter), Passed) \<in> set (trace (run cfg col r app (start lim)))"
  proof (rule gate [where pre = "take 5 app" and post = "drop 6 app" and s = "Group Summarize"])
    show "app = take 5 app @ (Use ''/api/summarize'', Limiter apiLimiter) # drop 6 app"
      by (simp add: app_def)
    show "list_all (\<lambda>l. error_layer (fst l) \<longrightarrow> snd l = ErrorHandler) (drop 6 app)"
      by (simp add: app_def)
    show "Group Summarize \<notin> snd ` set (take 5 app @ [(Use ''/api/summarize'', Limiter apiLimiter)])"
      by (auto simp: app_def)
    show "ran (Group Summarize) (run cfg col r app (start lim))"
      using assms(1) by (simp add: handle_def)
  qed (use m in auto)
  then show ?thesis by (simp add: handle_def)
qed

lemma pdf_gate:
  assumes "ran (Group Pdf) (handle cfg col lim r)"
  shows "(Limiter apiLimiter, Passed) \<in> set (trace (handle cfg col lim r))"
proof -
  have m: "match_use ''/api/pdf'' (path r)"
  proof (rule ccontr)
    assume "\<not> match_use ''/api/pdf'' (path r)"
    then have "list_all (\<lambda>l. snd l \<noteq> Group Pdf \<or> \<not> matches (fst l) r) app"
      by (simp add: app_def)
    then have "\<not> ran (Group Pdf) (handle cfg col lim r)"
      unfolding handle_def using start_not_ran by (rule never_runs)
    with assms show False by simp
  qed
  have "(snd (Use ''/api/pdf'', Limiter apiLimiter), Passed) \<in> set (trace (run cfg col r app (start lim)))"
  proof (rule gate [where pre = "take 6 app" and post = "drop 7 app" and s = "Group Pdf"])
    show "app = take 6 app @ (Use ''/api/pdf'', Limiter apiLimiter) # drop 7 app"
      by (simp add: app_def)
    show "list_all (\<lambda>l. error_layer (fst l) \<longrightarrow> snd l = ErrorHandler) (drop 7 app)"
      by (simp add: app_def)
    show "Group Pdf \<notin> snd ` set (take 6 app @ [(Use ''/api/pdf'', Limiter apiLimiter)])"
      by (auto simp: app_def)
    show "ran (Group Pdf) (run cfg col r app (start lim))"
      using assms(1) by (simp add: handle_def)
  qed (use m in auto)
  then show ?thesis by (simp add: handle_def)
qed

text \<open>A limiter that passed a request had admitted it, counting from the store as found.\<close>

lemma passed_admitted_in:
  assumes split: "ls = pre @ (m, Limiter n) # post"
    and l: "\<not> error_layer m" "Limiter n \<notin> snd ` set pre" "Limiter n \<notin> snd ` set post"
    and passed: "(Limiter n, Passed) \<in> set (trace (run cfg col r ls (start lim)))"
  shows "fst (admit (rate_limits cfg n) (arrival r) (lim n (client r)))"
proof -
  obtain hs where "fst (run_stage cfg col r (limits (run cfg col r pre (start lim))) None (Limiter n)) = Next hs"
    using single_run [OF split, of cfg col r lim] l passed by auto
  then have "fst (admit (rate_limits cfg n) (arrival r) (limits (run cfg col r pre (start lim)) n (client r)))"
    by (rule limiter_Next)
  moreover have "limits (run cfg col r pre (start lim)) n = lim n"
    using run_limits [OF l(2)] by (simp add: start_def)
  ultimately show ?thesis by simp
qed

lemma passed_admitted:
  assumes "(Limiter n, Passed) \<in> set (trace (handle cfg col lim r))"
  shows "fst (admit (rate_limits cfg n) (arrival r) (lim n (client r)))"
proof (cases n)
  case generalLimiter
  show ?thesis
  proof (rule passed_admitted_in [where pre = "take 3 app" and post = "drop 4 app" and m = "Use ''/api/''"])
    show "app = take 3 app @ (Use ''/api/'', Limiter n) # drop 4 app"
      using generalLimiter by (simp add: app_def)
    show "(Limiter n, Passed) \<in> set (trace (run cfg col r app (start lim)))"
      using assms by (simp add: handle_def)
  qed (use generalLimiter in \<open>auto simp: app_def\<close>)
next
  case uploadLimiter
  show ?thesis
  proof (rule passed_admitted_in [where pre = "take 4 app" and post = "drop 5 app" and m = "Use ''/api/upload''"])
    show "app = take 4 app @ (Use ''/api/upload'', Limiter n) # drop 5 app"
      using uploadLimiter by (simp add: app_def)
    show "(Limiter n, Passed) \<in> set (trace (run cfg col r app (start lim)))"
      using assms by (simp add: handle_def)
  qed (use uploadLimiter in \<open>auto simp: app_def\<close>)
next
  case apiLimiter
  show ?thesis
  proof (cases "match_use ''/api/summarize'' (path r)")
    case True
    then have "\<not> matches (fst (Use ''/api/pdf'', Limiter apiLimiter)) r"
      using summarize_not_pdf by simp
    then have skip: "run cfg col r (take 6 app @ (Use ''/api/pdf'', Limiter apiLimiter) # drop 7 app) (start lim)
        = run cfg col r (take 6 app @ drop 7 app) (start lim)"
      by (rule run_skip_layer)
    have "app = take 6 app @ (Use ''/api/pdf'', Limiter apiLimiter) # drop 7 app"
      by (simp add: app_def)
    with skip have eq: "handle cfg col lim r = run cfg col r (take 6 app @ drop 7 app) (start lim)"
      by (simp add: handle_def)
    show ?thesis
    proof (rule passed_admitted_in [where pre = "take 5 app" and post = "drop 7 app" and m = "Use ''/api/summarize''"])
      show "take 6 app @ drop 7 app = take 5 app @ (Use ''/api/summarize'', Limiter n) # drop 7 app"
        using apiLimiter by (simp add: app_def)
      show "(Limiter n, Passed) \<in> set (trace (run cfg col r (take 6 app @ drop 7 app) (start lim)))"
        using assms eq by simp
    qed (use apiLimiter in \<open>auto simp: app_def\<close>)
  next
    case False
    then have "\<not> matches (fst (Use ''/api/summarize'', Limiter apiLimiter)) r"
      by simp
    then have skip: "run cfg col r (take 5 app @ (Use ''/api/summarize'', Limiter apiLimiter) # drop 6 app) (start lim)
        = run cfg col r (take 5 app @ drop 6 app) (start lim)"
      by (rule run_skip_layer)
    have "app = take 5 app @ (Use ''/api/summarize'', Limiter apiLimiter) # drop 6 app"
      by (simp add: app_def)
    with skip have eq: "handle cfg col lim r = run cfg col r (take 5 app @ drop 6 app) (start lim)"
      by (simp add: handle_def)
    show ?thesis
    proof (rule passed_admitted_in [where pre = "take 5 app" and post = "drop 7 app" and m = "Use ''/api/pdf''"])
      show "take 5 app @ drop 6 app = take 5 app @ (Use ''/api/pdf'', Limiter n) # drop 7 app"
        using apiLimiter by (simp add: app_def)
      show "(Limiter n, Passed) \<in> set (trace (run cfg col r (take 5 app @ drop 6 app) (start lim)))"
        using assms eq by simp
    qed (use apiLimiter in \<open>auto simp: app_def\<close>)
  qed
qed

text \<open>Evaluating the whole pipeline on a concrete request.\<close>

lemmas eval_defs =
  handle_def app_def run_Cons run_Nil step_def advance_def start_def security_middleware_def
  cors_def origin_callback_def no_origin_def cors_headers_def limiter_def admit_def
  current_bucket_def rate_limit_error_def res_json_def body_parser_def
  route_group_handler_def health_def root_def not_found_def
  match_use_def match_exact_def strip_slash_def lower_def lower_char_def Let_def
  sample_config_def request_to_def sample_routes_def no_hits_def error_handler_def
  limit_file_size_def invalid_file_type_def is_development_def cors_error_def

lemma sample_upload_trace:
  "trace (handle sample_config sample_routes no_hits (request_to POST ''/api/upload'')) =
     [(Helmet, Passed), (SecurityHeaders, Passed), (Cors, Passed),
      (Limiter generalLimiter, Passed), (Limiter uploadLimiter, Passed),
      (JsonParser, Passed), (UrlencodedParser, Passed), (Group Upload, Ended)]"
  by (simp add: eval_defs)

lemma sample_summarize_trace:
  "trace (handle sample_config sample_routes no_hits (request_to POST ''/api/summarize'')) =
     [(Helmet, Passed), (SecurityHeaders, Passed), (Cors, Passed),
      (Limiter generalLimiter, Passed), (Limiter apiLimiter, Passed),
      (JsonParser, Passed), (UrlencodedParser, Passed), (Group Summarize, Ended)]"
  by (simp add: eval_defs)

lemma sample_health_trace:
  "trace (handle sample_config sample_routes no_hits (request_to GET ''/api/health'')) =
     [(Helmet, Passed), (SecurityHeaders, Passed), (Cors, Passed),
      (Limiter generalLimiter, Passed),
      (JsonParser, Passed), (UrlencodedParser, Passed), (Health, Ended)]"
  by (simp add: eval_defs)

text \<open>
  Claim C10. A route group or the health endpoint handles a request only after the general
  limiter has passed it; the upload group only after the upload limiter has passed it as
  well, and the summarize and pdf groups only after the api limiter has. A limiter passes
  a request only if it admits it, counting from its store as it was when the request
  arrived. The class limiters are mounted after the general limiter and none replaces it.
\<close>

theorem limiters_stack:
  "(ran (Group g) (handle cfg col lim r) \<or> ran Health (handle cfg col lim r) \<longrightarrow>
      (Limiter generalLimiter, Passed) \<in> set (trace (handle cfg col lim r)))
   \<and> (ran (Group Upload) (handle cfg col lim r) \<longrightarrow>
      (Limiter uploadLimiter, Passed) \<in> set (trace (handle cfg col lim r)))
   \<and> (ran (Group Summarize) (handle cfg col lim r) \<or> ran (Group Pdf) (handle cfg col lim r) \<longrightarrow>
      (Limiter apiLimiter, Passed) \<in> set (trace (handle cfg col lim r)))
   \<and> ((Limiter n, Passed) \<in> set (trace (handle cfg col lim r)) \<longrightarrow>
      fst (admit (rate_limits cfg n) (arrival r) (lim n (client r))))"
  using general_gate [of _ cfg col lim r g] upload_gate summarize_gate pdf_gate passed_admitted
  by blast

theorem limiters_stack_witness:
  "ran (Group Upload) (handle sample_config sample_routes no_hits (request_to POST ''/api/upload''))
   \<and> (Limiter generalLimiter, Passed)
       \<in> set (trace (handle sample_config sample_routes no_hits (request_to POST ''/api/upload'')))
   \<and> (Limiter uploadLimiter, Passed)
       \<in> set (trace (handle sample_config sample_routes no_hits (request_to POST ''/api/upload'')))
   \<and> ran (Group Summarize)
       (handle sample_config sample_routes no_hits (request_to POST ''/api/summarize''))
   \<and> (Limiter apiLimiter, Passed)
       \<in> set (trace (handle sample_config sample_routes no_hits (request_to POST ''/api/summarize'')))
   \<and> ran Health (handle sample_config sample_routes no_hits (request_to GET ''/api/health''))
   \<and> (Limiter generalLimiter, Passed)
       \<in> set (trace (handle sample_config sample_routes no_hits (request_to GET ''/api/health'')))
   \<and> fst (admit (rate_limits sample_config generalLimiter)
        (arrival (request_to GET ''/api/health''))
        (no_hits generalLimiter (client (request_to GET ''/api/health''))))"
proof -
  have a: "ran (Group Upload)
      (handle sample_config sample_routes no_hits (request_to POST ''/api/upload''))"
    by (simp add: ran_def sample_upload_trace)
  have b: "ran (Group Summarize)
      (handle sample_config sample_routes no_hits (request_to POST ''/api/summarize''))"
    by (simp add: ran_def sample_summarize_trace)
  have c: "ran Health (handle sample_config sample_routes no_hits (request_to GET ''/api/health''))"
    by (simp add: ran_def sample_health_trace)
  show ?thesis
    using a b c
      limiters_stack [of Upload sample_config sample_routes no_hits
        "request_to POST ''/api/upload''" uploadLimiter]
      limiters_stack [of Summarize sample_config sample_routes no_hits
        "request_to POST ''/api/summarize''" apiLimiter]
      limiters_stack [of Upload sample_config sample_routes no_hits
        "request_to GET ''/api/health''" generalLimiter]
    by blast
qed

subsection \<open>Origin policy\<close>

lemma cors_error_response:
  "error_handler env cors_error =
     Respond 500 [(''Content-Type'', ''application/json; charset=utf-8'')]
       (Json ((''error'', ''An unexpected error occurred. Please try again.'')
              # (if env = Some ''development'' then [(''details'', ''Not allowed by CORS'')] else [])))"
  using generic_response [of cors_error env] cors_error_generic
  by (simp add: invalid_file_type_iff cors_error_def)

lemma cors_rejects:
  assumes "origin r = Some s" "s \<noteq> []" "s \<notin> set allowed"
  shows "origin_callback allowed (origin r) = Inl cors_error" "cors allowed r = Throw cors_error"
  using assms by (auto simp: cors_def origin_callback_def no_origin_def)

lemma rejected_origin_run:
  assumes "cors (allowedOrigins cfg) r = Throw cors_error"
  shows "handle cfg col lim r =
     \<lparr>flow = Done \<lparr>status = 500,
               headers = helmet_headers cfg @ custom_headers cfg
                 @ [(''Content-Type'', ''application/json; charset=utf-8'')],
               body = Json ((''error'', ''An unexpected error occurred. Please try again.'')
                  # (if NODE_ENV cfg = Some ''development''
                     then [(''details'', ''Not allowed by CORS'')] else []))\<rparr>,
      res_headers = helmet_headers cfg @ custom_headers cfg,
      limits = lim,
      trace = [(Helmet, Passed), (SecurityHeaders, Passed), (Cors, Failed), (ErrorHandler, Ended)]\<rparr>"
proof -
  let ?c = "\<lparr>flow = Failing cors_error, res_headers = helmet_headers cfg @ custom_headers cfg,
      limits = lim, trace = [(Helmet, Passed), (SecurityHeaders, Passed), (Cors, Failed)]\<rparr>"
  have three: "run cfg col r (take 3 app) (start lim) = ?c"
    using assms by (simp add: first_three_layers advance_def)
  have split: "app = take 3 app @ (take 15 (drop 3 app) @ [(UseError, ErrorHandler), (UseAll, NotFound)])"
    by (simp add: app_def)
  have "flow ?c = Failing cors_error"
    by simp
  moreover have "list_all (\<lambda>l. \<not> error_layer (fst l)) (take 15 (drop 3 app))"
    by (simp add: app_def)
  ultimately have "run cfg col r (take 15 (drop 3 app) @ [(UseError, ErrorHandler), (UseAll, NotFound)]) ?c =
     ?c\<lparr>flow := Done \<lparr>status = 500,
           headers = res_headers ?c @ [(''Content-Type'', ''application/json; charset=utf-8'')],
           body = Json ((''error'', ''An unexpected error occurred. Please try again.'')
                  # (if NODE_ENV cfg = Some ''development''
                     then [(''details'', ''Not allowed by CORS'')] else []))\<rparr>,
       trace := trace ?c @ [(ErrorHandler, Ended)]\<rparr>"
    using cors_error_response by (rule failing_to_error_handler)
  moreover have "handle cfg col lim r
      = run cfg col r (take 15 (drop 3 app) @ [(UseError, ErrorHandler), (UseAll, NotFound)]) ?c"
    unfolding handle_def by (subst split) (simp only: run_append three)
  ultimately show ?thesis by simp
qed

lemma cors_once:
  "length (filter (\<lambda>e. fst e = Cors) (trace (handle cfg col lim r))) = 1"
proof -
  let ?c = "run cfg col r (take 3 app) (start lim)"
  obtain v where v: "trace ?c = [(Helmet, Passed), (SecurityHeaders, Passed), (Cors, v)]"
    using advance_trace [of "\<lparr>flow = Running, res_headers = helmet_headers cfg @ custom_headers cfg,
        limits = lim, trace = [(Helmet, Passed), (SecurityHeaders, Passed)]\<rparr>" Cors
        "(cors (allowedOrigins cfg) r, lim)"]
    by (auto simp: first_three_layers)
  obtain t where t: "trace (run cfg col r (drop 3 app) ?c) = trace ?c @ t"
    "fst ` set t \<subseteq> snd ` set (drop 3 app)"
    using run_trace by blast
  have "Cors \<notin> snd ` set (drop 3 app)"
    by (auto simp: app_def)
  then have "\<forall>e \<in> set t. fst e \<noteq> Cors"
    using t(2) by (metis image_eqI subsetD)
  then have "filter (\<lambda>e. fst e = Cors) t = []"
    by (simp add: filter_empty_conv)
  moreover have "handle cfg col lim r = run cfg col r (drop 3 app) ?c"
    unfolding handle_def by (metis append_take_drop_id run_append)
  ultimately show ?thesis
    using t(1) v by simp
qed

text \<open>
  Claim C5, as stated, fails: an \<open>Origin\<close> header that is present with an empty value
  is not in the allowed set, and the callback admits it, since \<open>!origin\<close> is true of
  the empty string.
\<close>

theorem empty_origin_counterexample:
  "[] \<notin> set [''http://localhost:3000'']
   \<and> origin_callback [''http://localhost:3000''] (Some []) = Inr True
   \<and> cors (allowedOrigins sample_config) ((request_to GET ''/api/share'')\<lparr>origin := Some []\<rparr>)
       = Next [(''Vary'', ''Origin''), (''Access-Control-Allow-Credentials'', ''true'')]"
  by (simp add: origin_callback_def no_origin_def cors_def cors_headers_def sample_config_def
      request_to_def)

text \<open>
  Claim C5, amended. The origin callback is a function of the allowed origins and the
  request's origin, and the CORS stage runs exactly once for every request. A request
  without an \<open>Origin\<close> header is admitted. A request whose origin is in the allowed set is
  admitted and the response carries \<open>Access-Control-Allow-Credentials: true\<close>. A request
  whose origin is present, not empty and not in the allowed set fails with the error
  \<open>Not allowed by CORS\<close>: no limiter, parser or route runs, and the error handler
  answers with status 500. A request whose \<open>Origin\<close> header is empty is admitted like one
  without the header.
\<close>

theorem origin_policy:
  "(origin r = None \<longrightarrow> origin_callback (allowedOrigins cfg) (origin r) = Inr True)
   \<and> (origin r = Some s \<and> s \<in> set (allowedOrigins cfg) \<longrightarrow>
        origin_callback (allowedOrigins cfg) (origin r) = Inr True
        \<and> (''Access-Control-Allow-Credentials'', ''true'') \<in> set (cors_headers (origin r))
        \<and> (meth r \<noteq> OPTIONS \<longrightarrow> cors (allowedOrigins cfg) r = Next (cors_headers (origin r))))
   \<and> (origin r = Some s \<and> s \<noteq> [] \<and> s \<notin> set (allowedOrigins cfg) \<longrightarrow>
        origin_callback (allowedOrigins cfg) (origin r) = Inl cors_error
        \<and> trace (handle cfg col lim r) =
            [(Helmet, Passed), (SecurityHeaders, Passed), (Cors, Failed), (ErrorHandler, Ended)]
        \<and> response_of (handle cfg col lim r) =
            Some \<lparr>status = 500,
                  headers = helmet_headers cfg @ custom_headers cfg
                    @ [(''Content-Type'', ''application/json; charset=utf-8'')],
                  body = Json ((''error'', ''An unexpected error occurred. Please try again.'')
                    # (if NODE_ENV cfg = Some ''development''
                       then [(''details'', ''Not allowed by CORS'')] else []))\<rparr>)
   \<and> (origin r = Some [] \<longrightarrow> origin_callback (allowedOrigins cfg) (origin r) = Inr True)
   \<and> length (filter (\<lambda>e. fst e = Cors) (trace (handle cfg col lim r))) = 1"
proof -
  have a: "origin_callback (allowedOrigins cfg) (origin r) = Inr True" if "origin r = None"
    using that by (simp add: origin_callback_def no_origin_def)
  have b: "origin_callback (allowedOrigins cfg) (origin r) = Inr True
        \<and> (''Access-Control-Allow-Credentials'', ''true'') \<in> set (cors_headers (origin r))
        \<and> (meth r \<noteq> OPTIONS \<longrightarrow> cors (allowedOrigins cfg) r = Next (cors_headers (origin r)))"
    if "origin r = Some s" "s \<in> set (allowedOrigins cfg)"
    using that by (simp add: origin_callback_def cors_def cors_headers_def)
  have c: "origin_callback (allowedOrigins cfg) (origin r) = Inl cors_error
        \<and> trace (handle cfg col lim r) =
            [(Helmet, Passed), (SecurityHeaders, Passed), (Cors, Failed), (ErrorHandler, Ended)]
        \<and> response_of (handle cfg col lim r) =
            Some \<lparr>status = 500,
                  headers = helmet_headers cfg @ custom_headers cfg
                    @ [(''Content-Type'', ''application/json; charset=utf-8'')],
                  body = Json ((''error'', ''An unexpected error occurred. Please try again.'')
                    # (if NODE_ENV cfg = Some ''development''
                       then [(''details'', ''Not allowed by CORS'')] else []))\<rparr>"
    if "origin r = Some s" "s \<noteq> []" "s \<notin> set (allowedOrigins cfg)"
    using cors_rejects [OF that] rejected_origin_run [of cfg r col lim]
    by (simp add: response_of_def)
  have d: "origin_callback (allowedOrigins cfg) (origin r) = Inr True" if "origin r = Some []"
    using that by (simp add: origin_callback_def no_origin_def)
  show ?thesis
    using a b c d cors_once [of cfg col lim r] by blast
qed


theorem origin_policy_witness:
  "origin_callback (allowedOrigins sample_config) (origin ((request_to GET ''/api/share'')\<lparr>origin := None\<rparr>))
     = Inr True
   \<and> cors (allowedOrigins sample_config) (request_to GET ''/api/share'')
     = Next (cors_headers (Some ''http://localhost:3000''))
   \<and> (''Access-Control-Allow-Credentials'', ''true'')
       \<in> set (cors_headers (Some ''http://localhost:3000''))
   \<and> trace (handle sample_config sample_routes no_hits
        ((request_to GET ''/api/share'')\<lparr>origin := Some ''http://evil.example''\<rparr>))
     = [(Helmet, Passed), (SecurityHeaders, Passed), (Cors, Failed), (ErrorHandler, Ended)]
   \<and> origin_callback (allowedOrigins sample_config)
        (origin ((request_to GET ''/api/share'')\<lparr>origin := Some []\<rparr>))
     = Inr True"
proof -
  let ?none = "(request_to GET ''/api/share'')\<lparr>origin := None\<rparr>"
  let ?evil = "(request_to GET ''/api/share'')\<lparr>origin := Some ''http://evil.example''\<rparr>"
  let ?empty = "(request_to GET ''/api/share'')\<lparr>origin := Some []\<rparr>"
  have a: "origin ?none = None"
    by simp
  have b: "origin (request_to GET ''/api/share'') = Some ''http://localhost:3000''
      \<and> ''http://localhost:3000'' \<in> set (allowedOrigins sample_config)
      \<and> meth (request_to GET ''/api/share'') \<noteq> OPTIONS"
    by (simp add: request_to_def sample_config_def)
  have c: "origin ?evil = Some ''http://evil.example'' \<and> ''http://evil.example'' \<noteq> []
      \<and> ''http://evil.example'' \<notin> set (allowedOrigins sample_config)"
    by (simp add: sample_config_def)
  have d: "origin ?empty = Some []"
    by simp
  show ?thesis
    using a b c d
      origin_policy [of ?none sample_config "[]" sample_routes no_hits]
      origin_policy [of "request_to GET ''/api/share''" sample_config "''http://localhost:3000''"
        sample_routes no_hits]
      origin_policy [of ?evil sample_config "''http://evil.example''" sample_routes no_hits]
      origin_policy [of ?empty sample_config "[]" sample_routes no_hits]
    by metis
qed

subsection \<open>Unmatched requests\<close>

lemma all_passed_step:
  assumes wf: "error_layer (fst l) \<longrightarrow> snd l = ErrorHandler"
    and inv: "flow c = Running \<longrightarrow> list_all (\<lambda>e. snd e = Passed) (trace c)"
  shows "flow (step cfg col r l c) = Running
     \<longrightarrow> list_all (\<lambda>e. snd e = Passed) (trace (step cfg col r l c))"
proof (cases "flow c")
  case Running
  obtain out lim' where "run_stage cfg col r (limits c) None (snd l) = (out, lim')"
    by (cases "run_stage cfg col r (limits c) None (snd l)")
  with Running inv show ?thesis
    by (cases out) (simp_all add: step_def advance_def)
next
  case (Failing err)
  show ?thesis
  proof (cases "error_layer (fst l) \<and> matches (fst l) r")
    case False
    then show ?thesis using Failing by (auto simp: step_def)
  next
    case True
    obtain st hs b where "error_handler (NODE_ENV cfg) err = Respond st hs b"
      using error_handler_responds by blast
    then show ?thesis
      using Failing True wf by (simp add: step_def advance_def)
  qed
next
  case (Done resp)
  then show ?thesis by (simp add: step_def)
qed

lemma all_passed_run:
  assumes "list_all (\<lambda>l. error_layer (fst l) \<longrightarrow> snd l = ErrorHandler) ls"
    and "flow c = Running \<longrightarrow> list_all (\<lambda>e. snd e = Passed) (trace c)"
  shows "flow (run cfg col r ls c) = Running
     \<longrightarrow> list_all (\<lambda>e. snd e = Passed) (trace (run cfg col r ls c))"
  using assms
proof (induction ls arbitrary: c)
  case Nil
  then show ?case by (simp add: run_Nil)
next
  case (Cons l ls)
  have "flow (step cfg col r l c) = Running
     \<longrightarrow> list_all (\<lambda>e. snd e = Passed) (trace (step cfg col r l c))"
    using Cons.prems by (intro all_passed_step) simp_all
  then show ?case
    using Cons by (simp add: run_Cons)
qed

lemma not_found_last:
  assumes "ran NotFound (handle cfg col lim r)"
  shows "\<exists>t. trace (handle cfg col lim r) = t @ [(NotFound, Ended)]
     \<and> list_all (\<lambda>e. snd e = Passed) t"
proof -
  let ?c = "run cfg col r (take 19 app) (start lim)"
  have split: "app = take 19 app @ [(UseAll, NotFound)]"
    by (simp add: app_def)
  have h: "handle cfg col lim r = step cfg col r (UseAll, NotFound) ?c"
    unfolding handle_def by (subst split) (simp only: run_append run_Cons run_Nil)
  have "list_all (\<lambda>l. snd l \<noteq> NotFound \<or> \<not> matches (fst l) r) (take 19 app)"
    by (simp add: app_def)
  then have not_yet: "\<not> ran NotFound ?c"
    using start_not_ran by (rule never_runs)
  have passed: "flow ?c = Running \<longrightarrow> list_all (\<lambda>e. snd e = Passed) (trace ?c)"
    by (rule all_passed_run) (simp_all add: app_def start_def)
  show ?thesis
  proof (cases "flow ?c = Running")
    case True
    then have "trace (step cfg col r (UseAll, NotFound) ?c) = trace ?c @ [(NotFound, Ended)]"
      by (simp add: step_def advance_def not_found_def res_json_def)
    with True passed h show ?thesis by simp
  next
    case False
    then have "step cfg col r (UseAll, NotFound) ?c = ?c"
      by (cases "flow ?c") (simp_all add: step_def)
    with h not_yet assms show ?thesis by simp
  qed
qed

lemma limiter_stage_passes:
  assumes "fst (admit (rate_limits cfg n) (arrival r) (lim n (client r)))"
  shows "\<exists>lim'. run_stage cfg col r lim None (Limiter n) = (Next [], lim')"
  using assms
  by (cases "admit (rate_limits cfg n) (arrival r) (lim n (client r))") (simp add: limiter_def)

lemma unmatched_routes:
  assumes "\<not> route_matches r"
  shows "\<not> match_use ''/api/upload'' (path r)" "\<not> match_use ''/api/summarize'' (path r)"
    "\<not> match_use ''/api/share'' (path r)" "\<not> match_use ''/api/pdf'' (path r)"
    "\<not> match_use ''/api/templates'' (path r)" "\<not> match_use ''/api/version-history'' (path r)"
    "\<not> match_use ''/api/export'' (path r)"
    "\<not> matches (Get ''/api/health'') r" "\<not> matches (Get ''/'') r"
  using assms by (simp_all add: route_matches_def routes_def app_def)

lemma unmatched_reaches_not_found:
  assumes unmatched: "\<not> route_matches r"
    and cors: "cors (allowedOrigins cfg) r = Next (cors_headers (origin r))"
    and general: "match_use ''/api/'' (path r) \<longrightarrow>
        fst (admit (rate_limits cfg generalLimiter) (arrival r) (lim generalLimiter (client r)))"
    and body: "body_parser JsonBody r = Next []" "body_parser FormBody r = Next []"
  shows "response_of (handle cfg col lim r) =
     Some \<lparr>status = 404,
           headers = helmet_headers cfg @ custom_headers cfg @ cors_headers (origin r)
             @ [(''Content-Type'', ''application/json; charset=utf-8'')],
           body = Json [(''error'', ''Endpoint not found'')]\<rparr>"
proof -
  note no = unmatched_routes [OF unmatched]
  let ?c3 = "\<lparr>flow = Running,
        res_headers = helmet_headers cfg @ custom_headers cfg @ cors_headers (origin r),
        limits = lim,
        trace = [(Helmet, Passed), (SecurityHeaders, Passed), (Cors, Passed)]\<rparr>"
  have three: "run cfg col r (take 3 app) (start lim) = ?c3"
    using cors by (simp add: first_three_layers advance_def)
  have four: "\<exists>c4. step cfg col r (Use ''/api/'', Limiter generalLimiter) ?c3 = c4
      \<and> flow c4 = Running \<and> res_headers c4 = res_headers ?c3"
  proof (cases "match_use ''/api/'' (path r)")
    case True
    then obtain lim' where "run_stage cfg col r lim None (Limiter generalLimiter) = (Next [], lim')"
      using general limiter_stage_passes by blast
    with True show ?thesis by (simp add: step_def advance_def)
  next
    case False
    then show ?thesis by (simp add: step_def)
  qed
  then obtain c4 where c4: "step cfg col r (Use ''/api/'', Limiter generalLimiter) ?c3 = c4"
    "flow c4 = Running" "res_headers c4 = res_headers ?c3"
    by blast
  have rest: "flow (run cfg col r (drop 4 app) c4) =
      Done \<lparr>status = 404,
           headers = res_headers c4 @ [(''Content-Type'', ''application/json; charset=utf-8'')],
           body = Json [(''error'', ''Endpoint not found'')]\<rparr>"
    using c4(2) no body
    by (simp add: app_def run_Cons run_Nil step_def advance_def not_found_def res_json_def)
  have "app = take 3 app @ (Use ''/api/'', Limiter generalLimiter) # drop 4 app"
    by (simp add: app_def)
  then have "handle cfg col lim r = run cfg col r (drop 4 app) c4"
    unfolding handle_def using three c4(1) by (metis run_append run_Cons)
  with rest c4(3) show ?thesis
    by (simp add: response_of_def)
qed


text \<open>
  Claim C8, as stated, fails: a request that matches no route and comes from an origin that
  is not allowed is answered by the error handler with status 500, not with the 404 of
  the last handler.
\<close>

theorem unmatched_rejected_origin_counterexample:
  "\<not> route_matches ((request_to GET ''/nowhere'')\<lparr>origin := Some ''http://evil.example''\<rparr>)
   \<and> response_of (handle sample_config sample_routes no_hits
         ((request_to GET ''/nowhere'')\<lparr>origin := Some ''http://evil.example''\<rparr>)) =
       Some \<lparr>status = 500,
             headers = [(''X-Content-Type-Options'', ''nosniff''), (''X-Frame-Options'', ''DENY''),
                        (''Content-Type'', ''application/json; charset=utf-8'')],
             body = Json [(''error'', ''An unexpected error occurred. Please try again.'')]\<rparr>"
proof -
  let ?r = "(request_to GET ''/nowhere'')\<lparr>origin := Some ''http://evil.example''\<rparr>"
  have "\<not> route_matches ?r"
    by (simp add: route_matches_def routes_def app_def request_to_def match_use_def
        match_exact_def strip_slash_def lower_def lower_char_def Let_def)
  moreover have "cors (allowedOrigins sample_config) ?r = Throw cors_error"
    by (rule cors_rejects [of _ "''http://evil.example''"]) (simp_all add: sample_config_def)
  then have "response_of (handle sample_config sample_routes no_hits ?r) =
       Some \<lparr>status = 500,
             headers = [(''X-Content-Type-Options'', ''nosniff''), (''X-Frame-Options'', ''DENY''),
                        (''Content-Type'', ''application/json; charset=utf-8'')],
             body = Json [(''error'', ''An unexpected error occurred. Please try again.'')]\<rparr>"
    by (simp add: rejected_origin_run response_of_def sample_config_def)
  ultimately show ?thesis by simp
qed

text \<open>
  Claim C8, amended. A request that the earlier stages let through (its origin is admitted,
  it is not a preflight request, the general limiter admits it when its path is under
  \<open>/api/\<close>, and both body parsers pass it) and that matches no route group and no
  liveness endpoint is answered with status 404 and the body
  \<open>{error: "Endpoint not found"}\<close>. The 404 handler is the last layer, and for every
  request it runs only when every stage that ran before it has passed the request on: it
  never takes a request that an earlier layer answered or failed.
\<close>

theorem unmatched_request:
  assumes "\<not> route_matches r"
    and "origin_callback (allowedOrigins cfg) (origin r) = Inr True" "meth r \<noteq> OPTIONS"
    and "match_use ''/api/'' (path r) \<longrightarrow>
        fst (admit (rate_limits cfg generalLimiter) (arrival r) (lim generalLimiter (client r)))"
    and "body_parser JsonBody r = Next []" "body_parser FormBody r = Next []"
  shows "response_of (handle cfg col lim r) =
       Some \<lparr>status = 404,
             headers = helmet_headers cfg @ custom_headers cfg @ cors_headers (origin r)
               @ [(''Content-Type'', ''application/json; charset=utf-8'')],
             body = Json [(''error'', ''Endpoint not found'')]\<rparr>
     \<and> last app = (UseAll, NotFound)
     \<and> (\<forall>cfg' col' lim' r'. ran NotFound (handle cfg' col' lim' r') \<longrightarrow>
          (\<exists>t. trace (handle cfg' col' lim' r') = t @ [(NotFound, Ended)]
             \<and> list_all (\<lambda>e. snd e = Passed) t))"
proof -
  have "cors (allowedOrigins cfg) r = Next (cors_headers (origin r))"
    using assms(2,3) by (simp add: cors_def)
  then have "response_of (handle cfg col lim r) =
       Some \<lparr>status = 404,
             headers = helmet_headers cfg @ custom_headers cfg @ cors_headers (origin r)
               @ [(''Content-Type'', ''application/json; charset=utf-8'')],
             body = Json [(''error'', ''Endpoint not found'')]\<rparr>"
    using assms(1,4,5,6) by (intro unmatched_reaches_not_found)
  moreover have "last app = (UseAll, NotFound)"
    by (simp add: app_def)
  ultimately show ?thesis
    using not_found_last by blast
qed

theorem unmatched_request_witness:
  "response_of (handle sample_config sample_routes no_hits (request_to GET ''/nowhere'')) =
     Some \<lparr>status = 404,
           headers = [(''X-Content-Type-Options'', ''nosniff''), (''X-Frame-Options'', ''DENY''),
                      (''Access-Control-Allow-Origin'', ''http://localhost:3000''),
                      (''Vary'', ''Origin''), (''Access-Control-Allow-Credentials'', ''true''),
                      (''Content-Type'', ''application/json; charset=utf-8'')],
           body = Json [(''error'', ''Endpoint not found'')]\<rparr>
   \<and> (\<exists>t. trace (handle sample_config sample_routes no_hits (request_to GET ''/api/nowhere''))
          = t @ [(NotFound, Ended)]
        \<and> list_all (\<lambda>e. snd e = Passed) t)"
proof -
  let ?r = "request_to GET ''/nowhere''"
  let ?q = "request_to GET ''/api/nowhere''"
  have a: "\<not> route_matches ?r"
    by (simp add: route_matches_def routes_def app_def request_to_def match_use_def
        match_exact_def strip_slash_def lower_def lower_char_def Let_def)
  have b: "origin_callback (allowedOrigins sample_config) (origin ?r) = Inr True"
    by (simp add: origin_callback_def no_origin_def sample_config_def request_to_def)
  have c: "meth ?r \<noteq> OPTIONS"
    by (simp add: request_to_def)
  have d: "match_use ''/api/'' (path ?r) \<longrightarrow>
      fst (admit (rate_limits sample_config generalLimiter) (arrival ?r)
        (no_hits generalLimiter (client ?r)))"
    by (simp add: request_to_def match_use_def strip_slash_def lower_def lower_char_def Let_def)
  have e: "body_parser JsonBody ?r = Next []" "body_parser FormBody ?r = Next []"
    by (simp_all add: body_parser_def request_to_def)
  have f: "ran NotFound (handle sample_config sample_routes no_hits ?q)"
    by (simp add: ran_def eval_defs)
  have g: "helmet_headers sample_config @ custom_headers sample_config @ cors_headers (origin ?r)
      @ [(''Content-Type'', ''application/json; charset=utf-8'')]
    = [(''X-Content-Type-Options'', ''nosniff''), (''X-Frame-Options'', ''DENY''),
       (''Access-Control-Allow-Origin'', ''http://localhost:3000''),
       (''Vary'', ''Origin''), (''Access-Control-Allow-Credentials'', ''true''),
       (''Content-Type'', ''application/json; charset=utf-8'')]"
    by (simp add: sample_config_def request_to_def cors_headers_def)
  show ?thesis
    using unmatched_request [where r = ?r and cfg = sample_config and lim = no_hits
        and col = sample_routes, OF a b c d e] f g
    by metis
qed

end
